theory Spec2Isabelle
  imports Complex_Main "HOL-Library.Sublist" "HOL-Library.AList"
begin

section \<open>JavaScript values\<close>

text \<open>
  The library is TypeScript running on a JavaScript host.  A JavaScript number is an IEEE
  double: not-a-number, one of the two infinities, or a finite value.  Every finite double
  is a rational, so finite numbers are modelled by \<^typ>\<open>rat\<close>; what is proved for every
  rational holds for every double (negative zero is identified with zero, as IndexedDB
  keys and \<open>Array.prototype.includes\<close> do).
\<close>

datatype number = NaN | NegInfinity | Finite rat | Infinity

text \<open>The relational operator \<open>a > b\<close> on numbers: false as soon as one side is \<open>NaN\<close>.\<close>

fun num_gt :: "number \<Rightarrow> number \<Rightarrow> bool" where
  "num_gt NaN b = False"
| "num_gt a NaN = False"
| "num_gt NegInfinity b = False"
| "num_gt (Finite x) NegInfinity = True"
| "num_gt (Finite x) (Finite y) = (y < x)"
| "num_gt (Finite x) Infinity = False"
| "num_gt Infinity Infinity = False"
| "num_gt Infinity b = True"

definition isNaN :: "number \<Rightarrow> bool" where
  "isNaN n = (n = NaN)"

fun isFinite :: "number \<Rightarrow> bool" where
  "isFinite (Finite x) = True"
| "isFinite n = False"

definition MAX_SAFE_INTEGER :: number where
  "MAX_SAFE_INTEGER = Finite (2 ^ 53 - 1)"

text \<open>
  The values an identifier, a record field or a rejection reason can hold.  \<open>Error msg\<close> is
  an \<open>Error\<close> object with that message; \<open>Obj\<close> stands for any other object.
\<close>

datatype jsval = Undefined | Null | Bool bool | Num number | Str string | Error string | Obj

text \<open>Truthiness, as \<open>if (v)\<close> and \<open>a || b\<close> test it.\<close>

fun truthy :: "jsval \<Rightarrow> bool" where
  "truthy Undefined = False"
| "truthy Null = False"
| "truthy (Bool b) = b"
| "truthy (Num n) = (n \<noteq> NaN \<and> n \<noteq> Finite 0)"
| "truthy (Str s) = (s \<noteq> [])"
| "truthy (Error m) = True"
| "truthy Obj = True"

subsection \<open>Strings\<close>

text \<open>
  \<open>String.prototype.trim\<close> removes white space from both ends.  Strings are byte strings
  here, so the white space is the ASCII white space (tab, line feed, vertical tab, form
  feed, carriage return, space).
\<close>

definition isWhiteSpace :: "char \<Rightarrow> bool" where
  "isWhiteSpace c = (c \<in> set [CHR 0x09, CHR 0x0A, CHR 0x0B, CHR 0x0C, CHR 0x0D, CHR 0x20])"

definition trim :: "string \<Rightarrow> string" where
  "trim s = rev (dropWhile isWhiteSpace (rev (dropWhile isWhiteSpace s)))"

subsection \<open>The host's conversions\<close>

text \<open>
  \<open>Number(s)\<close> on a string and \<open>String(n)\<close> on a number are built into the JavaScript host
  (string-to-double parsing and shortest round-trip printing).  The functions of the
  library take them as parameters, bundled with the other values only the host decides:
  the identifier \<open>Date.now() + Math.floor(Math.random() * 1000)\<close> drawn by a save without
  an identifier, and what the storage engine does with the \<open>n\<close>-th transaction once its
  unit of work has succeeded: it commits it (\<open>oncomplete\<close>), aborts it (\<open>onabort\<close>, with
  \<open>transaction.error\<close> set to the given value, \<open>Null\<close> for none) or reports an error on it
  (\<open>onerror\<close>, then \<open>onabort\<close>).
\<close>

datatype verdict = Commits | Aborts jsval | Errors jsval

record host =
  StringToNumber :: "string \<Rightarrow> number"
  NumberToString :: "number \<Rightarrow> string"
  timestampId :: rat
  commitVerdict :: "nat \<Rightarrow> verdict"

text \<open>\<open>Number(v)\<close> on any value.\<close>

fun Number_of :: "host \<Rightarrow> jsval \<Rightarrow> number" where
  "Number_of h Undefined = NaN"
| "Number_of h Null = Finite 0"
| "Number_of h (Bool b) = Finite (if b then 1 else 0)"
| "Number_of h (Num n) = n"
| "Number_of h (Str s) = StringToNumber h s"
| "Number_of h (Error m) = NaN"
| "Number_of h Obj = NaN"

section \<open>Identifier helpers (utils/helpers)\<close>

text \<open>\<open>normalizeId\<close>: numeric strings become numbers unless they exceed the safe range.\<close>

fun normalizeId :: "host \<Rightarrow> jsval \<Rightarrow> jsval" where
  "normalizeId h (Str s) =
     (let trimmedId = trim s in
      if trimmedId = [] then Str s
      else let numValue = StringToNumber h trimmedId in
        if \<not> isNaN numValue
        then (if num_gt numValue MAX_SAFE_INTEGER then Str trimmedId else Num numValue)
        else Str trimmedId)"
| "normalizeId h (Num n) =
     (if num_gt n MAX_SAFE_INTEGER then Str (NumberToString h n) else Num n)"
| "normalizeId h v = v"

text \<open>\<open>isValidId\<close>: a non-blank string or a finite number.\<close>

fun isValidId :: "jsval \<Rightarrow> bool" where
  "isValidId Null = False"
| "isValidId Undefined = False"
| "isValidId (Str s) = (trim s \<noteq> [])"
| "isValidId (Num n) = isFinite n"
| "isValidId v = False"


subsection \<open>Records\<close>

text \<open>
  A \<open>DatabaseItem\<close> is an object: its own properties in insertion order.  Reading a missing
  property gives \<open>undefined\<close>; the spread \<open>{...a, ...b}\<close> keeps the position of a property
  of \<open>a\<close> that \<open>b\<close> overwrites and appends the new ones.
\<close>

type_synonym item = "(string \<times> jsval) list"

definition getProp :: "item \<Rightarrow> string \<Rightarrow> jsval" where
  "getProp r k = (case map_of r k of None \<Rightarrow> Undefined | Some v \<Rightarrow> v)"

definition hasProp :: "item \<Rightarrow> string \<Rightarrow> bool" where
  "hasProp r k = (map_of r k \<noteq> None)"

definition spread :: "item \<Rightarrow> item \<Rightarrow> item" where
  "spread a b = fold (\<lambda>(k, v). AList.update k v) b a"

definition withId :: "item \<Rightarrow> jsval \<Rightarrow> item" where
  "withId r i = AList.update ''id'' i r"

subsection \<open>generateNextId\<close>

text \<open>
  \<open>generateNextId(allData)\<close> on an array of records.  When the array is not empty and its
  first element is an object with an \<open>id\<close>, the numeric identifiers are collected and the
  first integer of \<open>1..length\<close> that is not among them is returned, or the maximum plus
  one.  Otherwise the array is taken as an array of identifiers: an empty array gives 1,
  and an array of records without \<open>id\<close> gives 1 as well (no element converts to a number,
  and the elements are not all strings).
\<close>

definition numericIdsOf :: "host \<Rightarrow> item list \<Rightarrow> rat list" where
  "numericIdsOf h allData =
     sort (concat (map (\<lambda>r. case Number_of h (getProp r ''id'') of Finite x \<Rightarrow> [x] | _ \<Rightarrow> [])
       allData))"

definition generateNextId :: "host \<Rightarrow> item list \<Rightarrow> jsval" where
  "generateNextId h allData =
     (if allData \<noteq> [] \<and> hasProp (hd allData) ''id'' then
        (let numericIds = numericIdsOf h allData in
         if length numericIds = 0 then Num (Finite 1)
         else (case find (\<lambda>i. rat_of_nat i \<notin> set numericIds) [1 ..< Suc (length numericIds)] of
                 Some i \<Rightarrow> Num (Finite (rat_of_nat i))
               | None \<Rightarrow> Num (Finite (Max (set numericIds) + 1))))
      else Num (Finite 1))"

subsection \<open>A host for decimal integers\<close>

text \<open>
  Concrete evaluation needs a concrete host.  \<open>decimalHost\<close> converts as ECMAScript does on
  the strings that are an optionally signed sequence of decimal digits (or \<open>Infinity\<close>) and
  on the integers below \<open>10^21\<close>; on other strings it answers \<open>NaN\<close> and it prints other
  numbers as \<open>NaN\<close>, so it is only evaluated inside that fragment.
\<close>

definition digitValue :: "char \<Rightarrow> nat option" where
  "digitValue c = map_of [(CHR ''0'', 0), (CHR ''1'', 1), (CHR ''2'', 2), (CHR ''3'', 3),
     (CHR ''4'', 4), (CHR ''5'', 5), (CHR ''6'', 6), (CHR ''7'', 7), (CHR ''8'', 8),
     (CHR ''9'', 9)] c"

fun parseDigits :: "nat \<Rightarrow> string \<Rightarrow> nat option" where
  "parseDigits acc [] = Some acc"
| "parseDigits acc (c # cs) =
     (case digitValue c of None \<Rightarrow> None | Some d \<Rightarrow> parseDigits (10 * acc + d) cs)"

definition parseUnsigned :: "string \<Rightarrow> number" where
  "parseUnsigned t =
     (if t = [] then NaN
      else if t = ''Infinity'' then Infinity
      else (case parseDigits 0 t of None \<Rightarrow> NaN | Some n \<Rightarrow> Finite (rat_of_nat n)))"

fun negate :: "number \<Rightarrow> number" where
  "negate NaN = NaN"
| "negate NegInfinity = Infinity"
| "negate (Finite x) = Finite (- x)"
| "negate Infinity = NegInfinity"

definition decimalToNumber :: "string \<Rightarrow> number" where
  "decimalToNumber s =
     (case trim s of
        [] \<Rightarrow> Finite 0
      | c # cs \<Rightarrow>
          if c = CHR ''-'' then negate (parseUnsigned cs)
          else if c = CHR ''+'' then parseUnsigned cs
          else parseUnsigned (c # cs))"

fun decimalDigits :: "nat \<Rightarrow> string" where
  "decimalDigits n =
     (if n < 10 then [''0123456789'' ! n]
      else decimalDigits (n div 10) @ [''0123456789'' ! (n mod 10)])"

fun decimalToString :: "number \<Rightarrow> string" where
  "decimalToString NaN = ''NaN''"
| "decimalToString NegInfinity = ''-Infinity''"
| "decimalToString Infinity = ''Infinity''"
| "decimalToString (Finite x) =
     (if x = rat_of_int \<lfloor>x\<rfloor> then
        (if x < 0 then CHR ''-'' # decimalDigits (nat (- \<lfloor>x\<rfloor>)) else decimalDigits (nat \<lfloor>x\<rfloor>))
      else ''NaN'')"

definition decimalHost :: host where
  "decimalHost = \<lparr>StringToNumber = decimalToNumber, NumberToString = decimalToString,
     timestampId = 1700000000000, commitVerdict = (\<lambda>n. Commits)\<rparr>"


text \<open>
  What ECMAScript promises of the two conversions at a number \<open>n\<close>: \<open>String(n)\<close> has no
  white space around it and \<open>Number(String(n))\<close> is \<open>n\<close> again.
\<close>

definition roundTrips :: "host \<Rightarrow> number \<Rightarrow> bool" where
  "roundTrips h n =
     (trim (NumberToString h n) = NumberToString h n \<and>
      StringToNumber h (NumberToString h n) = n)"

section \<open>The transaction coordinator (IndexedDBManager.executeTransaction)\<close>

text \<open>
  \<open>executeTransaction\<close> returns \<open>new Promise((resolve, reject) => ...)\<close>.  A promise settles
  once: \<open>resolve\<close> and \<open>reject\<close> do nothing on a promise that is already settled.
  \<open>callbackResult\<close> is \<open>undefined\<close> until the unit of work has produced a value, hence an
  option.
\<close>

datatype 'a settlement = Pending | Resolved "'a option" | Rejected jsval

record 'a coordination =
  callbackResult :: "'a option"
  callbackError :: jsval
  isCallbackDone :: bool
  isTransactionDone :: bool
  promise :: "'a settlement"
  abortCalls :: nat

definition resolve :: "'a option \<Rightarrow> 'a coordination \<Rightarrow> 'a coordination" where
  "resolve v c = (if promise c = Pending then c\<lparr>promise := Resolved v\<rparr> else c)"

definition reject :: "jsval \<Rightarrow> 'a coordination \<Rightarrow> 'a coordination" where
  "reject e c = (if promise c = Pending then c\<lparr>promise := Rejected e\<rparr> else c)"

definition checkCompletion :: "'a coordination \<Rightarrow> 'a coordination" where
  "checkCompletion c =
     (if isCallbackDone c \<and> isTransactionDone c then
        (if truthy (callbackError c) then reject (callbackError c) c
         else resolve (callbackResult c) c)
      else c)"

text \<open>
  The handlers.  \<open>onerror\<close> and \<open>onabort\<close> read \<open>transaction.error\<close>, which the engine sets; it
  is the argument \<open>txError\<close> (\<open>Null\<close> when the engine has set none).  \<open>hasAbort\<close> is the test
  \<open>if (transaction.abort)\<close>; calling \<open>abort()\<close> is a request to the engine and is counted.
\<close>

definition oncomplete :: "'a coordination \<Rightarrow> 'a coordination" where
  "oncomplete c = checkCompletion (c\<lparr>isTransactionDone := True\<rparr>)"

definition onerror :: "jsval \<Rightarrow> 'a coordination \<Rightarrow> 'a coordination" where
  "onerror txError c = reject txError c"

definition onabort :: "jsval \<Rightarrow> 'a coordination \<Rightarrow> 'a coordination" where
  "onabort txError c =
     reject (if truthy txError then txError else Error ''Transaction aborted'') c"

definition callbackThen :: "'a \<Rightarrow> 'a coordination \<Rightarrow> 'a coordination" where
  "callbackThen result c =
     checkCompletion (c\<lparr>callbackResult := Some result, isCallbackDone := True\<rparr>)"

definition callbackCatch :: "bool \<Rightarrow> jsval \<Rightarrow> 'a coordination \<Rightarrow> 'a coordination" where
  "callbackCatch hasAbort err c =
     (let c' = c\<lparr>callbackError := err, isCallbackDone := True\<rparr> in
      if hasAbort then c'\<lparr>abortCalls := abortCalls c' + 1\<rparr> else checkCompletion c')"

text \<open>
  The completion signals the host delivers, in the order it delivers them: the three
  transaction events, and the settlement of the promise the unit of work returned.
\<close>

datatype 'a signal =
    Complete
  | TxError jsval
  | Abort jsval
  | CallbackThen 'a
  | CallbackCatch jsval

fun deliver :: "bool \<Rightarrow> 'a coordination \<Rightarrow> 'a signal \<Rightarrow> 'a coordination" where
  "deliver hasAbort c Complete = oncomplete c"
| "deliver hasAbort c (TxError e) = onerror e c"
| "deliver hasAbort c (Abort e) = onabort e c"
| "deliver hasAbort c (CallbackThen v) = callbackThen v c"
| "deliver hasAbort c (CallbackCatch e) = callbackCatch hasAbort e c"

definition run :: "bool \<Rightarrow> 'a coordination \<Rightarrow> 'a signal list \<Rightarrow> 'a coordination" where
  "run hasAbort c sigs = foldl (deliver hasAbort) c sigs"

text \<open>
  The state once the handlers are registered and the unit of work has been called: it
  either returned (a value or a promise), or threw synchronously, which the outer
  \<open>catch\<close> turns into \<open>reject(error)\<close> followed by \<open>abort()\<close> when there is one.
\<close>

definition started :: "'a coordination" where
  "started = \<lparr>callbackResult = None, callbackError = Undefined, isCallbackDone = False,
     isTransactionDone = False, promise = Pending, abortCalls = 0\<rparr>"

definition startedThrowing :: "bool \<Rightarrow> jsval \<Rightarrow> 'a coordination" where
  "startedThrowing hasAbort error =
     (let c = reject error started in
      if hasAbort then c\<lparr>abortCalls := abortCalls c + 1\<rparr> else c)"


section \<open>The object store (an IDBObjectStore with key path \<open>id\<close>)\<close>

text \<open>
  The storage engine is the host's.  An object store with key path \<open>id\<close> holds at most one
  record per key; keys are numbers other than \<open>NaN\<close> and strings (dates, arrays and binary
  keys are not modelled), and a request with another key throws \<open>DataError\<close>.  The records
  are kept in the order they were first stored.
\<close>

definition keyOf :: "item \<Rightarrow> jsval" where
  "keyOf r = getProp r ''id''"

fun validKey :: "jsval \<Rightarrow> bool" where
  "validKey (Num n) = (n \<noteq> NaN)"
| "validKey (Str s) = True"
| "validKey v = False"

definition DataError :: jsval where
  "DataError = Error ''DataError''"

definition store_get :: "item list \<Rightarrow> jsval \<Rightarrow> jsval + item option" where
  "store_get rs k = (if validKey k then Inr (find (\<lambda>r. keyOf r = k) rs) else Inl DataError)"

definition store_put :: "item list \<Rightarrow> item \<Rightarrow> jsval + item list" where
  "store_put rs r =
     (if validKey (keyOf r) then
        Inr (if find (\<lambda>x. keyOf x = keyOf r) rs = None then rs @ [r]
             else map (\<lambda>x. if keyOf x = keyOf r then r else x) rs)
      else Inl DataError)"

definition store_delete :: "item list \<Rightarrow> jsval \<Rightarrow> jsval + item list" where
  "store_delete rs k =
     (if validKey k then Inr (filter (\<lambda>r. keyOf r \<noteq> k) rs) else Inl DataError)"

text \<open>
  \<open>Promise.all\<close> over one \<open>put\<close> (or \<open>delete\<close>) per element: all succeed, or the whole
  rejects with the first failure.
\<close>

fun putAll :: "item list \<Rightarrow> item list \<Rightarrow> jsval + item list" where
  "putAll rs [] = Inr rs"
| "putAll rs (x # xs) = (case store_put rs x of Inl e \<Rightarrow> Inl e | Inr rs' \<Rightarrow> putAll rs' xs)"

fun deleteAll :: "item list \<Rightarrow> jsval list \<Rightarrow> jsval + item list" where
  "deleteAll rs [] = Inr rs"
| "deleteAll rs (k # ks) =
     (case store_delete rs k of Inl e \<Rightarrow> Inl e | Inr rs' \<Rightarrow> deleteAll rs' ks)"

section \<open>The manager (IndexedDBManager)\<close>

datatype txmode = ReadOnly | ReadWrite

datatype operation = Add | Update | Delete | Clear

datatype payload = ItemData item | IdData jsval | NoData

type_synonym emission = "operation \<times> payload"

record dbconfig =
  name :: string
  version :: nat
  store :: string

text \<open>
  The manager's fields, the database the engine keeps for it (its version, zero before it
  is first created, its object stores and their records), and two logs: the notifications
  handed to the emitter and the transactions created with \<open>db.transaction\<close>.  \<open>db\<close> says
  whether \<open>this.db\<close> holds a connection.  A schema is the list of the store names it
  declares.
\<close>

record manager =
  dbConfig :: dbconfig
  dbSchema :: "string list option"
  db :: bool
  idbVersion :: nat
  objectStoreNames :: "string list"
  records :: "(string \<times> item list) list"
  emitted :: "emission list"
  transactions :: "(string \<times> txmode) list"

definition recordsOf :: "manager \<Rightarrow> string \<Rightarrow> item list" where
  "recordsOf m storeName = (case map_of (records m) storeName of None \<Rightarrow> [] | Some rs \<Rightarrow> rs)"

definition emitEvent :: "operation \<Rightarrow> payload \<Rightarrow> manager \<Rightarrow> manager" where
  "emitEvent event data m = m\<lparr>emitted := emitted m @ [(event, data)]\<rparr>"

definition validateDatabaseConfig :: "dbconfig \<Rightarrow> bool" where
  "validateDatabaseConfig config =
     (trim (name config) \<noteq> [] \<and> version config > 0 \<and> trim (store config) \<noteq> [])"

subsection \<open>openDatabase\<close>

definition createObjectStore :: "string \<Rightarrow> manager \<Rightarrow> manager" where
  "createObjectStore storeName m =
     m\<lparr>objectStoreNames := objectStoreNames m @ [storeName],
       records := AList.update storeName [] (records m)\<rparr>"

definition createIfMissing :: "string \<Rightarrow> manager \<Rightarrow> manager" where
  "createIfMissing storeName m =
     (if storeName \<in> set (objectStoreNames m) then m else createObjectStore storeName m)"

definition onupgradeneeded :: "manager \<Rightarrow> manager" where
  "onupgradeneeded m =
     (case dbSchema m of
        Some stores \<Rightarrow> fold createIfMissing stores m
      | None \<Rightarrow> createIfMissing (store (dbConfig m)) m)"

text \<open>
  \<open>indexedDB.open(name, version)\<close> throws for version zero, fails with \<open>VersionError\<close> for a
  version below the stored one, and runs the upgrade for a version above it.
\<close>

definition openDatabase :: "manager \<Rightarrow> (jsval + unit) \<times> manager" where
  "openDatabase m =
     (if db m then (Inr (), m)
      else if dbSchema m = None \<and> \<not> validateDatabaseConfig (dbConfig m)
        then (Inl (Error ''Invalid database configuration''), m)
      else if version (dbConfig m) = 0 then (Inl (Error ''TypeError''), m)
      else if version (dbConfig m) < idbVersion m then (Inl (Error ''VersionError''), m)
      else
        (let m' = (if idbVersion m < version (dbConfig m) then onupgradeneeded m else m)
         in (Inr (), m'\<lparr>db := True, idbVersion := version (dbConfig m)\<rparr>)))"

subsection \<open>executeTransaction, seen from its caller\<close>

fun join :: "string \<Rightarrow> string list \<Rightarrow> string" where
  "join sep [] = []"
| "join sep [x] = x"
| "join sep (x # y # ys) = x @ sep @ join sep (y # ys)"

definition storeNotFound :: "string \<Rightarrow> string list \<Rightarrow> jsval" where
  "storeNotFound storeName availableStores =
     Error (''Store '' @ [CHR 0x27] @ storeName @ [CHR 0x27]
       @ '' not found. Available stores: ['' @ join '', '' availableStores @ '']'')"

text \<open>
  A unit of work reads the records of the store and either fails, or produces a value, the
  records as its requests leave them, and the notifications it emitted on the way.

  The outcome is the one the coordinator reaches on the signals of a well-behaved engine
  (lemma \<open>executeTransaction_follows_coordinator\<close> below): a unit of work that fails is
  followed by \<open>abort()\<close> and the abort event, the transaction's writes are dropped and the
  promise rejects with the abort handler's error; one that succeeds is followed by the
  engine's verdict, and a commit stores the records of a \<open>readwrite\<close> transaction (a
  \<open>readonly\<close> one cannot write).  The engine always grants \<open>db.transaction\<close> on a store the
  connection has.  \<open>Inl\<close> is a rejected promise, \<open>Inr\<close> a fulfilled one.
\<close>

type_synonym 'a callback = "item list \<Rightarrow> jsval + ('a \<times> item list \<times> emission list)"

definition executeTransaction ::
  "host \<Rightarrow> manager \<Rightarrow> string \<Rightarrow> txmode \<Rightarrow> 'a callback \<Rightarrow> (jsval + 'a) \<times> manager" where
  "executeTransaction h m storeName mode callback =
     (case openDatabase m of
        (Inl e, m1) \<Rightarrow> (Inl e, m1)
      | (Inr u, m1) \<Rightarrow>
          if storeName \<notin> set (objectStoreNames m1)
          then (Inl (storeNotFound storeName (objectStoreNames m1)), m1)
          else
            (let m2 = m1\<lparr>transactions := transactions m1 @ [(storeName, mode)]\<rparr> in
             case callback (recordsOf m2 storeName) of
               Inl err \<Rightarrow> (Inl (Error ''Transaction aborted''), m2)
             | Inr (result, rs', emits) \<Rightarrow>
                 (let m3 = m2\<lparr>emitted := emitted m2 @ emits\<rparr> in
                  case commitVerdict h (length (transactions m1)) of
                    Commits \<Rightarrow>
                      (Inr result,
                       if mode = ReadWrite
                       then m3\<lparr>records := AList.update storeName rs' (records m3)\<rparr>
                       else m3)
                  | Aborts txError \<Rightarrow>
                      (Inl (if truthy txError then txError
                            else Error ''Transaction aborted''), m3)
                  | Errors txError \<Rightarrow> (Inl txError, m3))))"


subsection \<open>Single-record operations\<close>

definition idExistsInStore ::
  "host \<Rightarrow> manager \<Rightarrow> string \<Rightarrow> jsval \<Rightarrow> (jsval + bool) \<times> manager" where
  "idExistsInStore h m storeName i =
     (let normalizedId = normalizeId h i in
      executeTransaction h m storeName ReadOnly
        (\<lambda>rs. case store_get rs normalizedId of
                 Inl e \<Rightarrow> Inl e
               | Inr result \<Rightarrow> Inr (result \<noteq> None, rs, [])))"

text \<open>
  The second half of \<open>saveDataToStore\<close>: the \<open>put\<close> of the record, and the notification in
  \<open>.then\<close>, after the transaction has completed.  (The data are a record here, so the
  guard of \<open>saveDataToStore\<close> against a value that is not an object never fires.)
\<close>

definition putAndEmit ::
  "host \<Rightarrow> manager \<Rightarrow> string \<Rightarrow> item \<Rightarrow> operation \<Rightarrow> (jsval + item) \<times> manager" where
  "putAndEmit h m storeName newData actionType =
     (case executeTransaction h m storeName ReadWrite
             (\<lambda>rs. case store_put rs newData of
                      Inl e \<Rightarrow> Inl e
                    | Inr rs' \<Rightarrow> Inr (newData, rs', [])) of
        (Inl e, m1) \<Rightarrow> (Inl e, m1)
      | (Inr savedData, m1) \<Rightarrow> (Inr savedData, emitEvent actionType (ItemData savedData) m1))"

definition saveDataToStore ::
  "host \<Rightarrow> manager \<Rightarrow> string \<Rightarrow> item \<Rightarrow> (jsval + item) \<times> manager" where
  "saveDataToStore h m storeName data =
     (let hasExplicitId = isValidId (getProp data ''id'') in
      if hasExplicitId then
        (let targetId = normalizeId h (getProp data ''id'') in
         case idExistsInStore h m storeName targetId of
           (Inl e, m1) \<Rightarrow> (Inl e, m1)
         | (Inr isUpdate, m1) \<Rightarrow>
             putAndEmit h m1 storeName (withId data targetId) (if isUpdate then Update else Add))
      else putAndEmit h m storeName (withId data (Num (Finite (timestampId h)))) Add)"

definition getDataByIdFromStore ::
  "host \<Rightarrow> manager \<Rightarrow> string \<Rightarrow> jsval \<Rightarrow> (jsval + item option) \<times> manager" where
  "getDataByIdFromStore h m storeName i =
     (if \<not> isValidId i then (Inr None, m)
      else
        (let normalizedId = normalizeId h i in
         executeTransaction h m storeName ReadOnly
           (\<lambda>rs. case store_get rs normalizedId of
                    Inl e \<Rightarrow> Inl e
                  | Inr result \<Rightarrow> Inr (result, rs, []))))"

definition updateDataByIdInStore ::
  "host \<Rightarrow> manager \<Rightarrow> string \<Rightarrow> jsval \<Rightarrow> item \<Rightarrow> (jsval + item option) \<times> manager" where
  "updateDataByIdInStore h m storeName i updatedData =
     (if \<not> isValidId i then (Inl (Error ''Invalid ID provided for update''), m)
      else
        (let normalizedId = normalizeId h i in
         case idExistsInStore h m storeName normalizedId of
           (Inl e, m1) \<Rightarrow> (Inl e, m1)
         | (Inr exists, m1) \<Rightarrow>
             if \<not> exists then (Inr None, m1)
             else
               executeTransaction h m1 storeName ReadWrite
                 (\<lambda>rs. case store_get rs normalizedId of
                          Inl e \<Rightarrow> Inl e
                        | Inr None \<Rightarrow> Inr (None, rs, [])
                        | Inr (Some result) \<Rightarrow>
                            (let newData = withId (spread result updatedData) normalizedId in
                             case store_put rs newData of
                               Inl e \<Rightarrow> Inl e
                             | Inr rs' \<Rightarrow>
                                 Inr (Some newData, rs', [(Update, ItemData newData)])))))"

definition deleteDataFromStore ::
  "host \<Rightarrow> manager \<Rightarrow> string \<Rightarrow> jsval \<Rightarrow> (jsval + jsval) \<times> manager" where
  "deleteDataFromStore h m storeName i =
     (if \<not> isValidId i then (Inl (Error ''Invalid ID provided for deletion''), m)
      else
        (let keyId = normalizeId h i in
         case executeTransaction h m storeName ReadWrite
                (\<lambda>rs. case store_delete rs keyId of
                         Inl e \<Rightarrow> Inl e
                       | Inr rs' \<Rightarrow> Inr (keyId, rs', [])) of
           (Inl e, m1) \<Rightarrow> (Inl e, m1)
         | (Inr deletedId, m1) \<Rightarrow> (Inr deletedId, emitEvent Delete (IdData deletedId) m1)))"


definition clearStore :: "host \<Rightarrow> manager \<Rightarrow> string \<Rightarrow> (jsval + unit) \<times> manager" where
  "clearStore h m storeName =
     executeTransaction h m storeName ReadWrite (\<lambda>rs. Inr ((), [], [(Clear, NoData)]))"



subsection \<open>Batch operations\<close>

text \<open>
  The loop of \<open>addManyToStore\<close> that assigns the identifiers: \<open>itemsToAdd\<close> and \<open>itemsToEmit\<close>
  grow by one element per item of the batch.
\<close>

fun assignIds ::
  "host \<Rightarrow> item list \<Rightarrow> item list \<Rightarrow> emission list \<Rightarrow> item list
     \<Rightarrow> item list \<times> emission list" where
  "assignIds h allDataInStore itemsToAdd itemsToEmit [] = (itemsToAdd, itemsToEmit)"
| "assignIds h allDataInStore itemsToAdd itemsToEmit (item # rest) =
     (let existingIds = set (map keyOf allDataInStore);
          (targetId, isUpdate) =
            (if isValidId (getProp item ''id'')
             then (let t = normalizeId h (getProp item ''id'') in (t, t \<in> existingIds))
             else (generateNextId h (allDataInStore @ itemsToAdd), False));
          newData = withId item targetId;
          actionType = (if isUpdate then Update else Add)
      in assignIds h allDataInStore (itemsToAdd @ [newData])
           (itemsToEmit @ [(actionType, ItemData newData)]) rest)"

text \<open>
  \<open>itemsToEmit\<close> is a variable of \<open>addManyToStore\<close> that the unit of work fills; here the unit
  of work returns it next to its \<open>true\<close>.  A failure anywhere ends in \<open>.catch\<close>, which
  answers \<open>false\<close>.
\<close>

definition addManyToStore ::
  "host \<Rightarrow> manager \<Rightarrow> string \<Rightarrow> item list \<Rightarrow> (jsval + bool) \<times> manager" where
  "addManyToStore h m storeName items =
     (case executeTransaction h m storeName ReadWrite
             (\<lambda>allDataInStore.
                let (itemsToAdd, itemsToEmit) = assignIds h allDataInStore [] [] items in
                case putAll allDataInStore itemsToAdd of
                  Inl e \<Rightarrow> Inl e
                | Inr rs' \<Rightarrow> Inr ((True, itemsToEmit), rs', [])) of
        (Inl err, m1) \<Rightarrow> (Inr False, m1)
      | (Inr (success, itemsToEmit), m1) \<Rightarrow>
          (Inr True,
           if success then fold (\<lambda>(actionType, data). emitEvent actionType data) itemsToEmit m1
           else m1))"

definition updateManyInStore ::
  "host \<Rightarrow> manager \<Rightarrow> string \<Rightarrow> item list \<Rightarrow> (jsval + bool) \<times> manager" where
  "updateManyInStore h m storeName items =
     (let itemsToEmit = items in
      case executeTransaction h m storeName ReadWrite
             (\<lambda>rs. case putAll rs items of
                      Inl e \<Rightarrow> Inl e
                    | Inr rs' \<Rightarrow> Inr (True, rs', [])) of
        (Inl err, m1) \<Rightarrow> (Inr False, m1)
      | (Inr success, m1) \<Rightarrow>
          (Inr True,
           if success then fold (\<lambda>item. emitEvent Update (ItemData item)) itemsToEmit m1
           else m1))"

definition deleteManyFromStore ::
  "host \<Rightarrow> manager \<Rightarrow> string \<Rightarrow> jsval list \<Rightarrow> (jsval + bool) \<times> manager" where
  "deleteManyFromStore h m storeName ids =
     (let idsToEmit = map (normalizeId h) ids in
      case executeTransaction h m storeName ReadWrite
             (\<lambda>rs. let normalizedIds = map (normalizeId h) ids in
                    case deleteAll rs normalizedIds of
                      Inl e \<Rightarrow> Inl e
                    | Inr rs' \<Rightarrow> Inr (True, rs', [])) of
        (Inl err, m1) \<Rightarrow> (Inr False, m1)
      | (Inr success, m1) \<Rightarrow>
          (Inr True,
           if success then fold (\<lambda>i. emitEvent Delete (IdData i)) idsToEmit m1
           else m1))"

subsection \<open>Search\<close>

text \<open>
  \<open>toLowerCase\<close> on byte strings maps the ASCII capitals; \<open>s.includes(sub)\<close> holds when \<open>sub\<close>
  occurs in \<open>s\<close> as a contiguous run.
\<close>

definition toLowerCase :: "string \<Rightarrow> string" where
  "toLowerCase s =
     map (\<lambda>c. case map_of (zip ''ABCDEFGHIJKLMNOPQRSTUVWXYZ'' ''abcdefghijklmnopqrstuvwxyz'') c of
                None \<Rightarrow> c | Some l \<Rightarrow> l) s"





definition commonExactValues :: "string list" where
  "commonExactValues =
     [''active'', ''inactive'', ''pending'', ''draft'', ''published'', ''archived'']"




subsection \<open>Operations built on the store-level ones\<close>









subsection \<open>Managers to evaluate on\<close>

text \<open>
  The configuration of the repository's tests, a manager that has not opened its database
  yet, and one whose connection is open on a database with the single store \<open>items\<close>
  holding the given records.
\<close>

definition testConfig :: dbconfig where
  "testConfig = \<lparr>name = ''TestDB'', version = 1, store = ''items''\<rparr>"

definition closedManager :: manager where
  "closedManager = \<lparr>dbConfig = testConfig, dbSchema = None, db = False, idbVersion = 0,
     objectStoreNames = [], records = [], emitted = [], transactions = []\<rparr>"

definition openManager :: "item list \<Rightarrow> manager" where
  "openManager rs = \<lparr>dbConfig = testConfig, dbSchema = None, db = True, idbVersion = 1,
     objectStoreNames = [''items''], records = [(''items'', rs)], emitted = [],
     transactions = []\<rparr>"

subsection \<open>What the coordinator has seen\<close>

text \<open>
  The bookkeeping of the coordinator against the set \<open>seen\<close> of the signals delivered so
  far: the transaction flag is only set by the commit signal, a recorded result is the
  value of a success signal, a unit of work that is done with no truthy error recorded has
  a recorded result, and a resolved promise carries such a result, after the commit.
\<close>

definition joined :: "'a coordination \<Rightarrow> 'a signal set \<Rightarrow> bool" where
  "joined c seen =
     ((isTransactionDone c \<longrightarrow> Complete \<in> seen)
      \<and> (\<forall>v. callbackResult c = Some v \<longrightarrow> CallbackThen v \<in> seen)
      \<and> (isCallbackDone c \<and> \<not> truthy (callbackError c) \<longrightarrow> callbackResult c \<noteq> None)
      \<and> (\<forall>r. promise c = Resolved r \<longrightarrow>
            Complete \<in> seen \<and> (\<exists>v. r = Some v \<and> CallbackThen v \<in> seen)))"

section \<open>Properties of the identifier helpers\<close>

lemma dropWhile_rev_fix:
  assumes "xs = [] \<or> \<not> P (hd xs)"
  shows "dropWhile P (rev (dropWhile P (rev xs))) = rev (dropWhile P (rev xs))"
proof (cases "dropWhile P (rev xs) = []")
  case True
  then show ?thesis by (simp del: dropWhile_eq_Nil_conv)
next
  case False
  then have ne: "xs \<noteq> []" by auto
  with assms have h: "\<not> P (hd xs)" by simp
  have "last (dropWhile P (rev xs)) = last (rev xs)"
    using False by (metis append_Nil2 last_appendR takeWhile_dropWhile_id)
  also have "\<dots> = hd xs" using ne by (simp add: last_rev)
  finally have "\<not> P (hd (rev (dropWhile P (rev xs))))"
    using h False by (simp add: hd_rev)
  then show ?thesis using False by (cases "rev (dropWhile P (rev xs))") auto
qed

lemma trim_idem: "trim (trim s) = trim s"
proof -
  let ?t = "dropWhile isWhiteSpace s"
  have t: "?t = [] \<or> \<not> isWhiteSpace (hd ?t)"
    by (metis hd_dropWhile)
  have "dropWhile isWhiteSpace (trim s) = trim s"
    unfolding trim_def using dropWhile_rev_fix[of "dropWhile isWhiteSpace s" isWhiteSpace] t by blast
  then show ?thesis
    by (simp add: trim_def dropWhile_idem)
qed

lemma normalizeId_idem_str: "normalizeId h (normalizeId h (Str s)) = normalizeId h (Str s)"
  by (auto simp: Let_def trim_idem isNaN_def)

lemma normalizeId_idem_num:
  assumes "num_gt n MAX_SAFE_INTEGER \<Longrightarrow> roundTrips h n"
  shows "normalizeId h (normalizeId h (Num n)) = normalizeId h (Num n)"
  using assms by (auto simp: Let_def roundTrips_def isNaN_def)

lemma normalizeId_idem:
  assumes "\<And>n. x = Num n \<Longrightarrow> num_gt n MAX_SAFE_INTEGER \<Longrightarrow> roundTrips h n"
  shows "normalizeId h (normalizeId h x) = normalizeId h x"
proof (cases x)
  case (Num n) then show ?thesis using assms normalizeId_idem_num by blast
next
  case (Str s) then show ?thesis using normalizeId_idem_str by blast
qed simp_all

lemmas decimal_defs = decimalHost_def decimalToNumber_def trim_def isWhiteSpace_def
  parseUnsigned_def digitValue_def isNaN_def MAX_SAFE_INTEGER_def

text \<open>
  Claim C8, as amended.  \<open>normalizeId\<close> is idempotent on every identifier: for a string with
  no assumption at all, for a number above \<open>MAX_SAFE_INTEGER\<close> given that the host prints
  that number without surrounding white space and reads the print back as the number (as
  ECMAScript hosts do).  A string whose trimmed form is not empty and converts to a number
  that is not above \<open>MAX_SAFE_INTEGER\<close> normalizes to that number, which is what the number
  itself normalizes to.
\<close>

theorem normalizeId_idempotent:
  assumes "\<And>n. x = Num n \<Longrightarrow> num_gt n MAX_SAFE_INTEGER \<Longrightarrow> roundTrips h n"
  shows "normalizeId h (normalizeId h x) = normalizeId h x \<and>
    (\<forall>s v. trim s \<noteq> [] \<and> StringToNumber h (trim s) = v \<and> v \<noteq> NaN \<and>
        \<not> num_gt v MAX_SAFE_INTEGER
      \<longrightarrow> normalizeId h (Str s) = Num v \<and> normalizeId h (Num v) = Num v)"
  using normalizeId_idem[OF assms] by (auto simp: Let_def isNaN_def)

theorem normalizeId_idempotent_witness:
  "num_gt (Finite 9007199254740992) MAX_SAFE_INTEGER \<and>
   roundTrips decimalHost (Finite 9007199254740992) \<and>
   normalizeId decimalHost (Num (Finite 9007199254740992)) = Str ''9007199254740992'' \<and>
   normalizeId decimalHost (Str ''9007199254740992'') = Str ''9007199254740992'' \<and>
   normalizeId decimalHost (Str '' 42 '') = Num (Finite 42) \<and>
   normalizeId decimalHost (Num (Finite 42)) = Num (Finite 42)"
proof -
  have r: "roundTrips decimalHost (Finite 9007199254740992)"
    by (simp add: roundTrips_def decimal_defs)
  have t: "trim '' 42 '' = ''42''" by (simp add: trim_def isWhiteSpace_def)
  have v: "StringToNumber decimalHost ''42'' = Finite 42"
    by (simp add: decimal_defs)
  have g: "num_gt (Finite 9007199254740992) MAX_SAFE_INTEGER" by (simp add: MAX_SAFE_INTEGER_def)
  have e: "normalizeId decimalHost (Num (Finite 9007199254740992)) = Str ''9007199254740992''"
    using g by (simp add: decimalHost_def)
  from normalizeId_idempotent[of "Num (Finite 9007199254740992)" decimalHost] r
  have "normalizeId decimalHost (normalizeId decimalHost (Num (Finite 9007199254740992)))
      = normalizeId decimalHost (Num (Finite 9007199254740992))
    \<and> (\<forall>s v. trim s \<noteq> [] \<and> StringToNumber decimalHost (trim s) = v \<and> v \<noteq> NaN \<and>
        \<not> num_gt v MAX_SAFE_INTEGER
      \<longrightarrow> normalizeId decimalHost (Str s) = Num v \<and> normalizeId decimalHost (Num v) = Num v)"
    by blast
  then have a: "normalizeId decimalHost (normalizeId decimalHost (Num (Finite 9007199254740992)))
      = normalizeId decimalHost (Num (Finite 9007199254740992))"
    and b: "trim '' 42 '' \<noteq> [] \<and> StringToNumber decimalHost (trim '' 42 '') = Finite 42
        \<and> Finite 42 \<noteq> NaN \<and> \<not> num_gt (Finite 42) MAX_SAFE_INTEGER
      \<longrightarrow> normalizeId decimalHost (Str '' 42 '') = Num (Finite 42)
        \<and> normalizeId decimalHost (Num (Finite 42)) = Num (Finite 42)"
    by blast+
  from b t v have d: "normalizeId decimalHost (Str '' 42 '') = Num (Finite 42)
      \<and> normalizeId decimalHost (Num (Finite 42)) = Num (Finite 42)"
    by (simp add: MAX_SAFE_INTEGER_def)
  have c: "normalizeId decimalHost (Str ''9007199254740992'') = Str ''9007199254740992''"
    using a unfolding e .
  show ?thesis using g r e c d by blast
qed

text \<open>
  Claim C8 as stated also says that a numeric string and its numeric equivalent normalize
  to the same key.  Above \<open>MAX_SAFE_INTEGER\<close> they need not: the string \<open>+9007199254740992\<close>
  converts to the number \<open>9007199254740992\<close>; the string stays the string it is, and the
  number becomes the string \<open>9007199254740992\<close>.
\<close>

theorem normalizeId_numeric_equivalent_counterexample:
  "StringToNumber decimalHost (trim ''+9007199254740992'') = Finite 9007199254740992 \<and>
   normalizeId decimalHost (Str ''+9007199254740992'') = Str ''+9007199254740992'' \<and>
   normalizeId decimalHost (Num (Finite 9007199254740992)) = Str ''9007199254740992'' \<and>
   normalizeId decimalHost (Str ''+9007199254740992'')
     \<noteq> normalizeId decimalHost (Num (Finite 9007199254740992))"
  by (simp add: decimal_defs)

section \<open>Properties of the transaction coordinator\<close>

lemmas handler_defs = resolve_def reject_def checkCompletion_def oncomplete_def onerror_def
  onabort_def callbackThen_def callbackCatch_def

lemma deliver_settled:
  "promise c \<noteq> Pending \<Longrightarrow> promise (deliver hasAbort c sig) = promise c"
  by (cases sig) (simp_all add: handler_defs Let_def)

text \<open>A settled promise stays as it is, whatever signals follow.\<close>

lemma run_settled:
  "promise c \<noteq> Pending \<Longrightarrow> promise (run hasAbort c sigs) = promise c"
proof (induction sigs arbitrary: c)
  case Nil
  then show ?case by (simp add: run_def)
next
  case (Cons sig sigs)
  have "promise (deliver hasAbort c sig) = promise c"
    using Cons.prems by (rule deliver_settled)
  moreover from this Cons.prems have "promise (deliver hasAbort c sig) \<noteq> Pending" by simp
  ultimately show ?case
    using Cons.IH[of "deliver hasAbort c sig"] by (simp add: run_def)
qed

text \<open>
  Every pair of one signal of the unit of work and one of the transaction, in either
  order, settles the promise, but for one: the commit first and the failure second, when
  \<open>abort\<close> is there to be called.
\<close>

lemma signal_pairs_settle:
  "promise (run hasAbort started [CallbackThen v, Complete]) = Resolved (Some v)"
  "promise (run hasAbort started [Complete, CallbackThen v]) = Resolved (Some v)"
  "promise (run hasAbort started [CallbackThen v, Abort e]) \<noteq> Pending"
  "promise (run hasAbort started [Abort e, CallbackThen v]) \<noteq> Pending"
  "promise (run hasAbort started [CallbackThen v, TxError e]) = Rejected e"
  "promise (run hasAbort started [TxError e, CallbackThen v]) = Rejected e"
  "promise (run hasAbort started [CallbackCatch e', Complete]) \<noteq> Pending"
  "promise (run hasAbort started [CallbackCatch e', Abort e]) \<noteq> Pending"
  "promise (run hasAbort started [Abort e, CallbackCatch e']) \<noteq> Pending"
  "promise (run hasAbort started [CallbackCatch e', TxError e]) = Rejected e"
  "promise (run hasAbort started [TxError e, CallbackCatch e']) = Rejected e"
  "promise (run False started [Complete, CallbackCatch e']) \<noteq> Pending"
  by (simp_all add: run_def handler_defs started_def Let_def)

text \<open>
  Claim C1 says the promise settles for every combination and order of the signals.  It
  does not when the transaction completes before the unit of work fails: \<open>oncomplete\<close>
  finds the unit of work unfinished, and the \<open>catch\<close> handler only calls \<open>abort()\<close>, which
  brings no abort event on a transaction that has completed.  The promise stays pending.
\<close>

theorem commit_then_failure_never_settles:
  "promise (run True started [Complete, CallbackCatch (Error ''late'')]) = Pending"
  by (simp add: run_def handler_defs started_def Let_def)

lemma joined_started: "joined started {}"
  by (simp add: joined_def started_def)

lemma joined_mono: "joined c seen \<Longrightarrow> seen \<subseteq> seen' \<Longrightarrow> joined c seen'"
  unfolding joined_def by blast

lemma joined_reject: "joined c seen \<Longrightarrow> joined (reject e c) seen"
  unfolding joined_def reject_def by simp

lemma joined_resolve:
  assumes "joined c seen" and "isCallbackDone c" and "isTransactionDone c"
    and "\<not> truthy (callbackError c)"
  shows "joined (resolve (callbackResult c) c) seen"
proof -
  from assms obtain v where "callbackResult c = Some v" "CallbackThen v \<in> seen" "Complete \<in> seen"
    unfolding joined_def by blast
  then show ?thesis
    using assms(1) unfolding joined_def resolve_def by simp
qed

lemma joined_checkCompletion: "joined c seen \<Longrightarrow> joined (checkCompletion c) seen"
  unfolding checkCompletion_def
  by (simp add: joined_reject joined_resolve)

lemma joined_abortCalls: "joined c seen \<Longrightarrow> joined (c\<lparr>abortCalls := n\<rparr>) seen"
  unfolding joined_def by simp

lemma joined_deliver:
  assumes "joined c seen" and "\<And>e. sig = CallbackCatch e \<Longrightarrow> truthy e"
  shows "joined (deliver hasAbort c sig) (insert sig seen)"
proof (cases sig)
  case Complete
  have "joined (c\<lparr>isTransactionDone := True\<rparr>) (insert Complete seen)"
    using assms(1) unfolding joined_def by simp
  then show ?thesis
    unfolding Complete deliver.simps oncomplete_def by (rule joined_checkCompletion)
next
  case (TxError e)
  have "joined c (insert sig seen)"
    using assms(1) by (rule joined_mono) blast
  then show ?thesis
    unfolding TxError deliver.simps onerror_def by (rule joined_reject)
next
  case (Abort e)
  have "joined c (insert sig seen)"
    using assms(1) by (rule joined_mono) blast
  then show ?thesis
    unfolding Abort deliver.simps onabort_def by (rule joined_reject)
next
  case (CallbackThen v)
  have "joined (c\<lparr>callbackResult := Some v, isCallbackDone := True\<rparr>)
      (insert (CallbackThen v) seen)"
    using assms(1) unfolding joined_def by simp blast
  then show ?thesis
    unfolding CallbackThen deliver.simps callbackThen_def by (rule joined_checkCompletion)
next
  case (CallbackCatch e)
  then have "truthy e" using assms(2) by simp
  then have j: "joined (c\<lparr>callbackError := e, isCallbackDone := True\<rparr>)
      (insert (CallbackCatch e) seen)"
    using assms(1) unfolding joined_def by simp
  show ?thesis
  proof (cases hasAbort)
    case True
    then show ?thesis
      unfolding CallbackCatch deliver.simps callbackCatch_def Let_def
      using joined_abortCalls[OF j] by simp
  next
    case False
    then show ?thesis
      unfolding CallbackCatch deliver.simps callbackCatch_def Let_def
      using joined_checkCompletion[OF j] by simp
  qed
qed

lemma joined_run:
  assumes "joined c seen" and "\<forall>e. CallbackCatch e \<in> set sigs \<longrightarrow> truthy e"
  shows "joined (run hasAbort c sigs) (seen \<union> set sigs)"
  using assms
proof (induction sigs arbitrary: c seen)
  case Nil
  then show ?case by (simp add: run_def)
next
  case (Cons sig sigs)
  have "joined (deliver hasAbort c sig) (insert sig seen)"
    using Cons.prems by (intro joined_deliver) auto
  then have "joined (run hasAbort (deliver hasAbort c sig) sigs) (insert sig seen \<union> set sigs)"
    using Cons.prems(2) by (intro Cons.IH) auto
  then show ?case by (simp add: run_def)
qed

text \<open>
  What does hold of the join.  Take any sequence of signals in which the unit of work, if
  it fails, fails with a truthy reason (an error object).  Whenever the promise is
  resolved, the commit signal and a success signal of the unit of work are both among the
  signals delivered, and the promise carries that signal's value; as this holds of every
  sequence, it holds at every moment of one.  Either signal alone leaves the promise
  pending, and the two resolve it in either order.  When \<open>abort\<close> is available, a failure of
  the unit of work calls it, and does not settle the promise by itself.
\<close>

lemma resolution_waits_for_value_and_commit:
  assumes "\<forall>e. CallbackCatch e \<in> set sigs \<longrightarrow> truthy e"
  shows "(\<forall>r. promise (run hasAbort started sigs) = Resolved r \<longrightarrow>
            Complete \<in> set sigs \<and> (\<exists>v. r = Some v \<and> CallbackThen v \<in> set sigs))
    \<and> promise (run hasAbort (started :: 'a coordination) [CallbackThen v]) = Pending
    \<and> promise (run hasAbort (started :: 'a coordination) [Complete]) = Pending
    \<and> promise (run hasAbort started [CallbackThen v, Complete]) = Resolved (Some v)
    \<and> promise (run hasAbort started [Complete, CallbackThen v]) = Resolved (Some v)
    \<and> abortCalls (run True (c :: 'a coordination) [CallbackCatch e]) = abortCalls c + 1
    \<and> promise (run True (c :: 'a coordination) [CallbackCatch e]) = promise c"
proof -
  have "joined (run hasAbort started sigs) ({} \<union> set sigs)"
    using joined_started assms by (rule joined_run)
  then have 1: "\<forall>r. promise (run hasAbort started sigs) = Resolved r \<longrightarrow>
            Complete \<in> set sigs \<and> (\<exists>v. r = Some v \<and> CallbackThen v \<in> set sigs)"
    by (simp add: joined_def)
  have 2: "promise (run hasAbort (started :: 'a coordination) [CallbackThen v]) = Pending"
    "promise (run hasAbort (started :: 'a coordination) [Complete]) = Pending"
    "promise (run hasAbort started [CallbackThen v, Complete]) = Resolved (Some v)"
    "promise (run hasAbort started [Complete, CallbackThen v]) = Resolved (Some v)"
    "abortCalls (run True c [CallbackCatch e]) = abortCalls c + 1"
    "promise (run True c [CallbackCatch e]) = promise c"
    by (simp_all add: run_def handler_defs started_def Let_def)
  show ?thesis by (intro conjI) (rule 1 2)+
qed

text \<open>
  Claim C2 says the promise never resolves before the unit of work has produced its value.
  It does when the unit of work fails with a falsy reason (\<open>undefined\<close>) and the commit
  signal follows: the \<open>catch\<close> handler records the reason and calls \<open>abort()\<close>, which a
  transaction that is already committing refuses; \<open>oncomplete\<close> then runs \<open>checkCompletion\<close>,
  whose test \<open>if (callbackError)\<close> takes the falsy reason for no failure at all, and the
  promise resolves with \<open>undefined\<close>.
\<close>

theorem falsy_failure_resolves:
  "promise (run True started [CallbackCatch Undefined, Complete]) = Resolved None
   \<and> promise (run False started [CallbackCatch Undefined, Complete]) = Resolved None"
  by (simp add: run_def handler_defs started_def Let_def)

lemma startedThrowing_rejected:
  "promise (run hasAbort (startedThrowing hasAbort e) sigs) = Rejected e"
proof -
  have "promise (startedThrowing hasAbort e :: 'a coordination) = Rejected e"
    by (simp add: startedThrowing_def started_def reject_def Let_def)
  then show ?thesis
    using run_settled[of "startedThrowing hasAbort e" hasAbort sigs] by simp
qed

lemma async_failure_then_abort:
  "promise (run True started (CallbackCatch e # Abort txError # later))
     = Rejected (if truthy txError then txError else Error ''Transaction aborted'')"
proof -
  let ?c = "run True started [CallbackCatch e, Abort txError]"
  have b: "promise ?c = Rejected (if truthy txError then txError else Error ''Transaction aborted'')"
    by (simp add: run_def handler_defs started_def Let_def)
  have ne: "promise ?c \<noteq> Pending"
    unfolding b by simp
  have eq: "run True started (CallbackCatch e # Abort txError # later) = run True ?c later"
    by (simp add: run_def)
  have "promise (run True ?c later) = promise ?c"
    using ne by (rule run_settled)
  then show ?thesis
    unfolding eq b .
qed

text \<open>
  The outcomes \<open>executeTransaction\<close> has for its callers are the coordinator's on the
  signals of a well-behaved engine.
\<close>

lemma executeTransaction_follows_coordinator:
  "promise (run True started [CallbackCatch err, Abort Null])
     = Rejected (Error ''Transaction aborted'')"
  "promise (run True started [CallbackThen result, Complete]) = Resolved (Some result)"
  "promise (run True started [CallbackThen result, Abort txError])
     = Rejected (if truthy txError then txError else Error ''Transaction aborted'')"
  "promise (run True started [CallbackThen result, TxError txError, Abort txError])
     = Rejected txError"
  by (simp_all add: run_def handler_defs started_def Let_def)

text \<open>
  A unit of work that throws synchronously rejects the promise with the error it threw, at
  once and for good.  One whose promise rejects, when \<open>abort\<close> is available, has \<open>abort()\<close>
  called and leaves the promise pending; the next transaction event decides the reason:
  the error event rejects with \<open>transaction.error\<close> as it is then, the abort event with
  \<open>transaction.error\<close> or a generic error when there is none.  Without \<open>abort\<close>, the commit
  signal rejects with the recorded error.
\<close>

lemma failure_outcomes:
  "promise (run hasAbort (startedThrowing hasAbort e) (sigs :: 'a signal list)) = Rejected e"
  "promise (run True (started :: 'a coordination) [CallbackCatch e]) = Pending"
  "abortCalls (run True (started :: 'a coordination) [CallbackCatch e]) = 1"
  "promise (run True (started :: 'a coordination) (CallbackCatch e # Abort txError # later))
     = Rejected (if truthy txError then txError else Error ''Transaction aborted'')"
  "promise (run True (started :: 'a coordination) (CallbackCatch e # TxError txError # later))
     = Rejected txError"
  "truthy e \<Longrightarrow>
   promise (run False (started :: 'a coordination) (CallbackCatch e # Complete # later))
     = Rejected e"
proof -
  show "promise (run hasAbort (startedThrowing hasAbort e) sigs) = Rejected e"
    by (rule startedThrowing_rejected)
  show "promise (run True (started :: 'a coordination) [CallbackCatch e]) = Pending"
    "abortCalls (run True (started :: 'a coordination) [CallbackCatch e]) = 1"
    by (simp_all add: run_def handler_defs started_def Let_def)
  show "promise (run True (started :: 'a coordination) (CallbackCatch e # Abort txError # later))
     = Rejected (if truthy txError then txError else Error ''Transaction aborted'')"
    by (rule async_failure_then_abort)
  show "promise (run True (started :: 'a coordination) (CallbackCatch e # TxError txError # later))
     = Rejected txError"
  proof -
    let ?c = "run True (started :: 'a coordination) [CallbackCatch e, TxError txError]"
    have b: "promise ?c = Rejected txError"
      by (simp add: run_def handler_defs started_def Let_def)
    then have ne: "promise ?c \<noteq> Pending" by simp
    have eq: "run True started (CallbackCatch e # TxError txError # later) = run True ?c later"
      by (simp add: run_def)
    have "promise (run True ?c later) = promise ?c"
      using ne by (rule run_settled)
    then show ?thesis unfolding eq b .
  qed
  show "promise (run False (started :: 'a coordination) (CallbackCatch e # Complete # later))
     = Rejected e" if t: "truthy e"
  proof -
    let ?c = "run False (started :: 'a coordination) [CallbackCatch e, Complete]"
    have b: "promise ?c = Rejected e"
      using t by (simp add: run_def handler_defs started_def Let_def)
    then have ne: "promise ?c \<noteq> Pending" by simp
    have eq: "run False started (CallbackCatch e # Complete # later) = run False ?c later"
      by (simp add: run_def)
    have "promise (run False ?c later) = promise ?c"
      using ne by (rule run_settled)
    then show ?thesis unfolding eq b .
  qed
qed

text \<open>
  Claim C3 says the promise rejects with the error the unit of work raised, never with
  another.  When the unit of work's promise rejects with \<open>Error('boom')\<close> and \<open>abort\<close> is
  available, the recorded error is never used: if the abort event comes next the promise
  rejects with a new \<open>Error('Transaction aborted')\<close>, and if a pending request fails first
  the error event rejects it with \<open>transaction.error\<close>, which is still \<open>null\<close>.  The
  synchronous path and the path without \<open>abort\<close> do reject with the unit of work's error.
\<close>

theorem async_failure_loses_the_error:
  "promise (run True (started :: unit coordination) [CallbackCatch (Error ''boom''), Abort Null])
     = Rejected (Error ''Transaction aborted'')
   \<and> promise (run True (started :: unit coordination)
         [CallbackCatch (Error ''boom''), TxError Null, Abort Null])
     = Rejected Null
   \<and> promise (run True (startedThrowing True (Error ''boom'') :: unit coordination) [Abort Null])
     = Rejected (Error ''boom'')
   \<and> promise (run False (started :: unit coordination) [CallbackCatch (Error ''boom''), Complete])
     = Rejected (Error ''boom'')"
  by (simp add: run_def handler_defs started_def startedThrowing_def Let_def)

section \<open>Properties of the manager\<close>

lemma openDatabase_open: "db m \<Longrightarrow> openDatabase m = (Inr (), m)"
  by (simp add: openDatabase_def)

text \<open>
  The first open of a database that does not exist yet runs the upgrade, which creates the
  configured store.
\<close>

lemma openDatabase_creates_configured_store:
  "openDatabase closedManager = (Inr (), openManager [])"
  by (simp add: openDatabase_def closedManager_def openManager_def validateDatabaseConfig_def
      testConfig_def trim_def isWhiteSpace_def onupgradeneeded_def createIfMissing_def
      createObjectStore_def)

lemma openDatabase_keeps_logs:
  "openDatabase m = (r, m1) \<Longrightarrow> transactions m1 = transactions m \<and> emitted m1 = emitted m"
proof -
  have c: "\<And>n m. transactions (createIfMissing n m) = transactions m \<and> emitted (createIfMissing n m) = emitted m"
    by (simp add: createIfMissing_def createObjectStore_def)
  have f: "\<And>ns m. transactions (fold createIfMissing ns m) = transactions m \<and> emitted (fold createIfMissing ns m) = emitted m"
  proof -
    fix ns m show "transactions (fold createIfMissing ns m) = transactions m \<and> emitted (fold createIfMissing ns m) = emitted m"
      by (induction ns arbitrary: m) (simp_all add: c)
  qed
  have u: "transactions (onupgradeneeded m) = transactions m \<and> emitted (onupgradeneeded m) = emitted m"
    by (simp add: onupgradeneeded_def c f split: option.splits)
  assume "openDatabase m = (r, m1)"
  then show ?thesis
    using u by (auto simp: openDatabase_def Let_def split: if_splits)
qed


lemma executeTransaction_open:
  assumes "db m" and "storeName \<in> set (objectStoreNames m)"
  shows "executeTransaction h m storeName mode callback =
     (let m2 = m\<lparr>transactions := transactions m @ [(storeName, mode)]\<rparr> in
      case callback (recordsOf m storeName) of
        Inl err \<Rightarrow> (Inl (Error ''Transaction aborted''), m2)
      | Inr (result, rs', emits) \<Rightarrow>
          (let m3 = m2\<lparr>emitted := emitted m2 @ emits\<rparr> in
           case commitVerdict h (length (transactions m)) of
             Commits \<Rightarrow>
               (Inr result,
                if mode = ReadWrite
                then m3\<lparr>records := AList.update storeName rs' (records m3)\<rparr> else m3)
           | Aborts txError \<Rightarrow>
               (Inl (if truthy txError then txError else Error ''Transaction aborted''), m3)
           | Errors txError \<Rightarrow> (Inl txError, m3)))"
  using assms by (simp add: executeTransaction_def openDatabase_open recordsOf_def Let_def)

text \<open>
  Claim C10.  For an identifier that is \<open>null\<close>, \<open>undefined\<close>, an empty or blank string, a
  number that is not finite, or neither a string nor a number, \<open>isValidId\<close> is false and
  \<open>getDataByIdFromStore\<close> answers \<open>null\<close> and leaves the manager as it was: the connection
  is not opened, no transaction is created, the records and the notifications are
  untouched.
\<close>

theorem getDataById_invalid_id:
  assumes "i = Null \<or> i = Undefined \<or> (\<exists>s. i = Str s \<and> trim s = [])
     \<or> (\<exists>n. i = Num n \<and> \<not> isFinite n) \<or> ((\<forall>s. i \<noteq> Str s) \<and> (\<forall>n. i \<noteq> Num n))"
  shows "\<not> isValidId i \<and> getDataByIdFromStore h m storeName i = (Inr None, m)"
proof -
  have "\<not> isValidId i" using assms by (cases i) auto
  then show ?thesis by (simp add: getDataByIdFromStore_def)
qed

theorem getDataById_invalid_id_witness:
  "trim ''   '' = [] \<and> \<not> isValidId (Str ''   '')
   \<and> getDataByIdFromStore decimalHost closedManager ''items'' (Str ''   '') = (Inr None, closedManager)
   \<and> db closedManager = False \<and> transactions closedManager = []"
proof -
  have t: "trim ''   '' = []" by (simp add: trim_def isWhiteSpace_def)
  then have "Str ''   '' = Null \<or> Str ''   '' = Undefined \<or> (\<exists>s. Str ''   '' = Str s \<and> trim s = [])
     \<or> (\<exists>n. Str ''   '' = Num n \<and> \<not> isFinite n) \<or> ((\<forall>s. Str ''   '' \<noteq> Str s) \<and> (\<forall>n. Str ''   '' \<noteq> Num n))"
    by blast
  from getDataById_invalid_id[OF this, of decimalHost closedManager "''items''"] t
  show ?thesis by (simp add: closedManager_def)
qed










lemma getProp_update: "getProp (AList.update k v r) k' = (if k' = k then v else getProp r k')"
  by (simp add: getProp_def update_conv')

lemma keyOf_withId: "keyOf (withId r k) = k"
  by (simp add: keyOf_def withId_def getProp_update)

lemma map_of_fold_update:
  "map_of (fold (\<lambda>(k, v). AList.update k v) b a) = map_of a ++ map_of (rev b)"
proof (induction b arbitrary: a)
  case Nil
  then show ?case by simp
next
  case (Cons p b)
  obtain k v where p: "p = (k, v)" by (cases p)
  have "map_of (fold (\<lambda>(k, v). AList.update k v) (p # b) a)
      = map_of (AList.update k v a) ++ map_of (rev b)"
    using Cons.IH[of "AList.update k v a"] p by simp
  also have "\<dots> = map_of a ++ map_of (rev b @ [(k, v)])"
    by (simp add: update_conv' map_add_upd_left fun_eq_iff map_add_def split: option.splits)
  finally show ?case using p by simp
qed

lemma map_of_rev_distinct: "distinct (map fst b) \<Longrightarrow> map_of (rev b) = map_of b"
  by (rule map_of_inject_set[THEN iffD2]) (simp_all add: rev_map[symmetric] distinct_rev)

lemma getProp_spread:
  assumes "distinct (map fst b)"
  shows "getProp (spread a b) f = (if hasProp b f then getProp b f else getProp a f)"
  using assms
  by (auto simp: getProp_def hasProp_def spread_def map_of_fold_update map_of_rev_distinct
      map_add_def split: option.splits)

lemma validKey_normalizeId: "isValidId i \<Longrightarrow> validKey (normalizeId h i)"
  by (cases i) (auto simp: Let_def isNaN_def elim: isFinite.elims)

lemma find_replace:
  assumes "find (\<lambda>x. keyOf x = k) rs = Some r" and "keyOf new = k"
  shows "find (\<lambda>x. keyOf x = k) (map (\<lambda>x. if keyOf x = k then new else x) rs) = Some new"
  using assms by (induction rs) (auto split: if_splits)

lemma recordsOf_update:
  "recordsOf (m\<lparr>records := AList.update storeName rs (records m)\<rparr>) storeName = rs"
  by (simp add: recordsOf_def update_conv')


lemma idExistsInStore_open:
  assumes "db m" and "storeName \<in> set (objectStoreNames m)"
    and "normalizeId h k = k" and "validKey k"
    and "commitVerdict h (length (transactions m)) = Commits"
  shows "idExistsInStore h m storeName k
     = (Inr (find (\<lambda>r. keyOf r = k) (recordsOf m storeName) \<noteq> None),
        m\<lparr>transactions := transactions m @ [(storeName, ReadOnly)]\<rparr>)"
  using assms
  by (simp add: idExistsInStore_def executeTransaction_open store_get_def Let_def)

text \<open>
  Claim C7.  On an open connection that has the store, with an engine that commits the two
  transactions of the call, \<open>updateDataByIdInStore\<close> with a valid identifier answers \<open>null\<close>
  when no record has the normalized identifier as its key, changing neither the records
  nor the notifications; when a record \<open>r\<close> has it, the answer is the merged record: its
  \<open>id\<close> is the normalized identifier, every other property is the one of the supplied
  fields when they have it and the stored one otherwise; the store then holds the merged
  record under that key, and one \<open>update\<close> notification carries it.  (The supplied fields
  are an object: one value per property.  For a number above \<open>MAX_SAFE_INTEGER\<close> the host's
  round trip is used, as in C8, since the existence check normalizes a second time.)
\<close>

theorem updateDataById_result:
  assumes "db m" and "storeName \<in> set (objectStoreNames m)" and "isValidId i"
    and "\<And>n. i = Num n \<Longrightarrow> num_gt n MAX_SAFE_INTEGER \<Longrightarrow> roundTrips h n"
    and "commitVerdict h (length (transactions m)) = Commits"
    and "commitVerdict h (Suc (length (transactions m))) = Commits"
    and "distinct (map fst updatedData)"
  shows "case find (\<lambda>r. keyOf r = normalizeId h i) (recordsOf m storeName) of
      None \<Rightarrow>
        (\<exists>m'. updateDataByIdInStore h m storeName i updatedData = (Inr None, m')
           \<and> records m' = records m \<and> emitted m' = emitted m)
    | Some r \<Rightarrow>
        (\<exists>merged m'. updateDataByIdInStore h m storeName i updatedData = (Inr (Some merged), m')
           \<and> merged = withId (spread r updatedData) (normalizeId h i)
           \<and> getProp merged ''id'' = normalizeId h i
           \<and> (\<forall>f. f \<noteq> ''id'' \<longrightarrow>
                 getProp merged f = (if hasProp updatedData f then getProp updatedData f
                                     else getProp r f))
           \<and> find (\<lambda>x. keyOf x = normalizeId h i) (recordsOf m' storeName) = Some merged
           \<and> emitted m' = emitted m @ [(Update, ItemData merged)])"
proof -
  let ?k = "normalizeId h i"
  let ?rs = "recordsOf m storeName"
  let ?m1 = "m\<lparr>transactions := transactions m @ [(storeName, ReadOnly)]\<rparr>"
  have idem: "normalizeId h ?k = ?k"
    using assms(4) by (rule normalizeId_idem)
  have vk: "validKey ?k" using assms(3) by (rule validKey_normalizeId)
  have ex: "idExistsInStore h m storeName ?k
     = (Inr (find (\<lambda>r. keyOf r = ?k) ?rs \<noteq> None), ?m1)"
    using assms(1,2) idem vk assms(5) by (rule idExistsInStore_open)
  show ?thesis
  proof (cases "find (\<lambda>r. keyOf r = ?k) ?rs")
    case None
    then show ?thesis
      using assms(3) ex by (simp add: updateDataByIdInStore_def Let_def)
  next
    case (Some r)
    let ?merged = "withId (spread r updatedData) ?k"
    have km: "keyOf ?merged = ?k" by (rule keyOf_withId)
    have o1: "db ?m1" "storeName \<in> set (objectStoreNames ?m1)"
      "recordsOf ?m1 storeName = ?rs" "length (transactions ?m1) = Suc (length (transactions m))"
      using assms(1,2) by (simp_all add: recordsOf_def)
    have put: "store_put ?rs ?merged
        = Inr (map (\<lambda>x. if keyOf x = ?k then ?merged else x) ?rs)"
      using Some vk by (simp add: store_put_def km)
    let ?rs' = "map (\<lambda>x. if keyOf x = ?k then ?merged else x) ?rs"
    let ?m' = "?m1\<lparr>transactions := transactions ?m1 @ [(storeName, ReadWrite)],
        emitted := emitted m @ [(Update, ItemData ?merged)],
        records := AList.update storeName ?rs' (records m)\<rparr>"
    have res: "updateDataByIdInStore h m storeName i updatedData = (Inr (Some ?merged), ?m')"
      using assms(3) ex Some vk put assms(6) o1
      by (simp add: updateDataByIdInStore_def executeTransaction_open[OF o1(1,2)] store_get_def
          Let_def)
    have f: "find (\<lambda>x. keyOf x = ?k) (recordsOf ?m' storeName) = Some ?merged"
      using find_replace[OF Some km] by (simp add: recordsOf_def update_conv')
    have g: "getProp ?merged ''id'' = ?k"
      by (simp add: withId_def getProp_update)
    have l: "\<forall>f. f \<noteq> ''id'' \<longrightarrow>
        getProp ?merged f = (if hasProp updatedData f then getProp updatedData f else getProp r f)"
      using getProp_spread[OF assms(7)] by (simp add: withId_def getProp_update)
    have e: "emitted ?m' = emitted m @ [(Update, ItemData ?merged)]" by simp
    show ?thesis
      unfolding Some option.case using res g l f e by blast
  qed
qed


theorem updateDataById_result_witness:
  "db (openManager [[(''id'', Num (Finite 1)), (''name'', Str ''Test'')]])
   \<and> isValidId (Str ''1'') \<and> isValidId (Num (Finite 999))
   \<and> fst (updateDataByIdInStore decimalHost
          (openManager [[(''id'', Num (Finite 1)), (''name'', Str ''Test'')]]) ''items''
          (Str ''1'') [(''name'', Str ''Updated'')])
     = Inr (Some [(''id'', Num (Finite 1)), (''name'', Str ''Updated'')])
   \<and> fst (updateDataByIdInStore decimalHost
          (openManager [[(''id'', Num (Finite 1)), (''name'', Str ''Test'')]]) ''items''
          (Num (Finite 999)) [(''name'', Str ''Updated'')])
     = Inr None"
proof -
  let ?m = "openManager [[(''id'', Num (Finite 1)), (''name'', Str ''Test'')]]"
  have m: "db ?m" "''items'' \<in> set (objectStoreNames ?m)"
    "recordsOf ?m ''items'' = [[(''id'', Num (Finite 1)), (''name'', Str ''Test'')]]"
    by (simp_all add: openManager_def recordsOf_def)
  have c: "\<And>n. commitVerdict decimalHost n = Commits" by (simp add: decimalHost_def)
  have d: "distinct (map fst [(''name'', Str ''Updated'')])" by simp
  have k1: "normalizeId decimalHost (Str ''1'') = Num (Finite 1)"
    by (simp add: decimal_defs)
  have k2: "normalizeId decimalHost (Num (Finite 999)) = Num (Finite 999)"
    by (simp add: MAX_SAFE_INTEGER_def)
  have v1: "isValidId (Str ''1'')" by (simp add: trim_def isWhiteSpace_def)
  have v2: "isValidId (Num (Finite 999))" by simp
  have f1: "find (\<lambda>r. keyOf r = Num (Finite 1)) (recordsOf ?m ''items'')
      = Some [(''id'', Num (Finite 1)), (''name'', Str ''Test'')]"
    by (simp add: m keyOf_def getProp_def)
  have f2: "find (\<lambda>r. keyOf r = Num (Finite 999)) (recordsOf ?m ''items'') = None"
    by (simp add: m keyOf_def getProp_def)
  have s: "withId (spread [(''id'', Num (Finite 1)), (''name'', Str ''Test'')]
      [(''name'', Str ''Updated'')]) (Num (Finite 1))
      = [(''id'', Num (Finite 1)), (''name'', Str ''Updated'')]"
    by (simp add: withId_def spread_def)
  have a: "fst (updateDataByIdInStore decimalHost ?m ''items'' (Str ''1'')
      [(''name'', Str ''Updated'')])
     = Inr (Some [(''id'', Num (Finite 1)), (''name'', Str ''Updated'')])"
    using updateDataById_result[OF m(1,2) v1 _ c c d] f1 s unfolding k1 by auto
  have b: "fst (updateDataByIdInStore decimalHost ?m ''items'' (Num (Finite 999))
      [(''name'', Str ''Updated'')]) = Inr None"
    using updateDataById_result[OF m(1,2) v2 _ c c d] f2 unfolding k2
    by (auto simp: MAX_SAFE_INTEGER_def)
  from a b m(1) v1 v2 show ?thesis by blast
qed

subsection \<open>Notifications\<close>

lemma openDatabase_emitted: "emitted (snd (openDatabase m)) = emitted m"
  using openDatabase_keeps_logs[of m "fst (openDatabase m)" "snd (openDatabase m)"] by simp

lemma executeTransaction_silent:
  assumes "\<And>rs v rs' es. callback rs = Inr (v, rs', es) \<Longrightarrow> es = []"
  shows "emitted (snd (executeTransaction h m storeName mode callback)) = emitted m"
proof -
  obtain r m1 where o: "openDatabase m = (r, m1)" by (cases "openDatabase m")
  then have e: "emitted m1 = emitted m" using openDatabase_keeps_logs by blast
  show ?thesis
    using o e assms
    by (auto simp: executeTransaction_def Let_def split: sum.splits verdict.splits prod.splits)
qed

lemma executeTransaction_fulfilled:
  assumes "executeTransaction h m storeName mode callback = (Inr v, m')"
  shows "\<exists>rs rs' es. callback rs = Inr (v, rs', es) \<and> emitted m' = emitted m @ es"
proof -
  obtain r m1 where o: "openDatabase m = (r, m1)" by (cases "openDatabase m")
  then have e: "emitted m1 = emitted m" using openDatabase_keeps_logs by blast
  show ?thesis
    using assms o e
    by (auto simp: executeTransaction_def Let_def
        split: sum.splits verdict.splits prod.splits if_splits) blast+
qed

lemma idExistsInStore_emitted:
  "emitted (snd (idExistsInStore h m storeName k)) = emitted m"
  unfolding idExistsInStore_def Let_def
  by (rule executeTransaction_silent) (auto split: sum.splits)

lemma putAndEmit_emitted:
  assumes "putAndEmit h m storeName newData actionType = (r, m')"
  shows "case r of Inr saved \<Rightarrow> emitted m' = emitted m @ [(actionType, ItemData saved)]
                 | Inl e \<Rightarrow> emitted m' = emitted m"
proof -
  let ?cb = "\<lambda>rs. case store_put rs newData of Inl e \<Rightarrow> Inl e
     | Inr rs' \<Rightarrow> Inr (newData, rs', [] :: emission list)"
  have s: "emitted (snd (executeTransaction h m storeName ReadWrite ?cb)) = emitted m"
    by (rule executeTransaction_silent) (auto split: sum.splits)
  obtain r0 m0 where x: "executeTransaction h m storeName ReadWrite ?cb = (r0, m0)"
    by (cases "executeTransaction h m storeName ReadWrite ?cb")
  with s have "emitted m0 = emitted m" by simp
  then show ?thesis
    using assms x by (auto simp: putAndEmit_def emitEvent_def split: sum.splits)
qed

lemma saveDataToStore_emitted:
  assumes "saveDataToStore h m storeName data = (r, m')"
  shows "case r of
      Inr saved \<Rightarrow> \<exists>actionType. (actionType = Add \<or> actionType = Update)
                      \<and> emitted m' = emitted m @ [(actionType, ItemData saved)]
    | Inl e \<Rightarrow> emitted m' = emitted m"
proof (cases "isValidId (getProp data ''id'')")
  case False
  then have "putAndEmit h m storeName (withId data (Num (Finite (timestampId h)))) Add = (r, m')"
    using assms by (simp add: saveDataToStore_def)
  from putAndEmit_emitted[OF this] show ?thesis by (auto split: sum.splits)
next
  case True
  let ?k = "normalizeId h (getProp data ''id'')"
  obtain r1 m1 where x: "idExistsInStore h m storeName ?k = (r1, m1)"
    by (cases "idExistsInStore h m storeName ?k")
  then have e1: "emitted m1 = emitted m"
    using idExistsInStore_emitted[of h m storeName ?k] by simp
  show ?thesis
  proof (cases r1)
    case (Inl e)
    then show ?thesis using assms True x e1 by (auto simp: saveDataToStore_def Let_def)
  next
    case (Inr isUpdate)
    then have "putAndEmit h m1 storeName (withId data ?k) (if isUpdate then Update else Add)
        = (r, m')"
      using assms True x by (simp add: saveDataToStore_def Let_def)
    from putAndEmit_emitted[OF this] show ?thesis using e1 by (auto split: sum.splits)
  qed
qed

lemma updateDataById_emitted:
  assumes "updateDataByIdInStore h m storeName i updatedData = (Inr r, m')"
  shows "case r of None \<Rightarrow> emitted m' = emitted m
                 | Some merged \<Rightarrow> emitted m' = emitted m @ [(Update, ItemData merged)]"
proof -
  have v: "isValidId i" using assms by (auto simp: updateDataByIdInStore_def split: if_splits)
  let ?k = "normalizeId h i"
  obtain r1 m1 where x: "idExistsInStore h m storeName ?k = (r1, m1)"
    by (cases "idExistsInStore h m storeName ?k")
  then have e1: "emitted m1 = emitted m"
    using idExistsInStore_emitted[of h m storeName ?k] by simp
  show ?thesis
  proof (cases r1)
    case (Inl e)
    then show ?thesis using assms v x by (simp add: updateDataByIdInStore_def Let_def)
  next
    case (Inr exists)
    show ?thesis
    proof (cases exists)
      case False
      then show ?thesis using assms v x Inr e1 by (auto simp: updateDataByIdInStore_def Let_def)
    next
      case True
      let ?cb = "(\<lambda>rs. case store_get rs ?k of
                          Inl e \<Rightarrow> Inl e
                        | Inr None \<Rightarrow> Inr (None, rs, [])
                        | Inr (Some result) \<Rightarrow>
                            (let newData = withId (spread result updatedData) ?k in
                             case store_put rs newData of
                               Inl e \<Rightarrow> Inl e
                             | Inr rs' \<Rightarrow>
                                 Inr (Some newData, rs', [(Update, ItemData newData)])))"
      from True have "executeTransaction h m1 storeName ReadWrite
                 (\<lambda>rs. case store_get rs ?k of
                          Inl e \<Rightarrow> Inl e
                        | Inr None \<Rightarrow> Inr (None, rs, [])
                        | Inr (Some result) \<Rightarrow>
                            (let newData = withId (spread result updatedData) ?k in
                             case store_put rs newData of
                               Inl e \<Rightarrow> Inl e
                             | Inr rs' \<Rightarrow>
                                 Inr (Some newData, rs', [(Update, ItemData newData)])))
           = (Inr r, m')"
        using assms v x Inr by (simp add: updateDataByIdInStore_def Let_def)
      from executeTransaction_fulfilled[OF this]
      obtain rs rs' es where c: "?cb rs = Inr (r, rs', es)" and e: "emitted m' = emitted m1 @ es"
        by blast
      from c have "case r of None \<Rightarrow> es = [] | Some merged \<Rightarrow> es = [(Update, ItemData merged)]"
        by (auto simp: Let_def split: sum.splits option.splits)
      then show ?thesis using e e1 by (auto split: option.splits)
    qed
  qed
qed

lemma deleteData_emitted:
  assumes "deleteDataFromStore h m storeName i = (r, m')"
  shows "case r of Inr k \<Rightarrow> emitted m' = emitted m @ [(Delete, IdData k)]
                 | Inl e \<Rightarrow> emitted m' = emitted m"
proof (cases "isValidId i")
  case False
  then show ?thesis using assms by (auto simp: deleteDataFromStore_def)
next
  case True
  let ?cb = "\<lambda>rs. case store_delete rs (normalizeId h i) of Inl e \<Rightarrow> Inl e
     | Inr rs' \<Rightarrow> Inr (normalizeId h i, rs', [] :: emission list)"
  have s: "emitted (snd (executeTransaction h m storeName ReadWrite ?cb)) = emitted m"
    by (rule executeTransaction_silent) (auto split: sum.splits)
  obtain r0 m0 where x: "executeTransaction h m storeName ReadWrite ?cb = (r0, m0)"
    by (cases "executeTransaction h m storeName ReadWrite ?cb")
  with s have "emitted m0 = emitted m" by simp
  then show ?thesis
    using assms x True
    by (auto simp: deleteDataFromStore_def emitEvent_def Let_def split: sum.splits)
qed

lemma clearStore_emitted:
  assumes "clearStore h m storeName = (Inr u, m')"
  shows "emitted m' = emitted m @ [(Clear, NoData)]"
  using executeTransaction_fulfilled[OF assms[unfolded clearStore_def]] by auto


lemma fold_emitEvent:
  "emitted (fold (\<lambda>x. emitEvent (f x) (g x)) xs m) = emitted m @ map (\<lambda>x. (f x, g x)) xs"
  by (induction xs arbitrary: m) (simp_all add: emitEvent_def)

lemma fold_emitEvent_pairs:
  "emitted (fold (\<lambda>(actionType, data). emitEvent actionType data) es m) = emitted m @ es"
  using fold_emitEvent[of fst snd es m] by (simp add: case_prod_unfold)

lemma assignIds_emissions:
  "length (snd (assignIds h allData acc accE items)) = length accE + length items
   \<and> (set (map fst accE) \<subseteq> {Add, Update}
        \<longrightarrow> set (map fst (snd (assignIds h allData acc accE items))) \<subseteq> {Add, Update})"
  by (induction items arbitrary: acc accE) (simp_all add: Let_def case_prod_unfold)

lemma addMany_emitted:
  assumes "addManyToStore h m storeName items = (r, m')"
  shows "(r = Inr True \<and> (\<exists>es. emitted m' = emitted m @ es \<and> length es = length items
             \<and> set (map fst es) \<subseteq> {Add, Update}))
       \<or> (r = Inr False \<and> emitted m' = emitted m)"
proof -
  let ?cb = "\<lambda>allDataInStore.
                let (itemsToAdd, itemsToEmit) = assignIds h allDataInStore [] [] items in
                case putAll allDataInStore itemsToAdd of
                  Inl e \<Rightarrow> Inl e
                | Inr rs' \<Rightarrow> Inr ((True, itemsToEmit), rs', [] :: emission list)"
  have s: "emitted (snd (executeTransaction h m storeName ReadWrite ?cb)) = emitted m"
    by (rule executeTransaction_silent) (auto split: sum.splits prod.splits)
  obtain r0 m0 where x: "executeTransaction h m storeName ReadWrite ?cb = (r0, m0)"
    by (cases "executeTransaction h m storeName ReadWrite ?cb")
  with s have e0: "emitted m0 = emitted m" by simp
  show ?thesis
  proof (cases r0)
    case (Inl e)
    then show ?thesis using assms x e0 by (simp add: addManyToStore_def)
  next
    case (Inr p)
    obtain success itemsToEmit where p: "p = (success, itemsToEmit)" by (cases p)
    from executeTransaction_fulfilled[OF x[unfolded Inr p]]
    obtain rs rs' es where "?cb rs = Inr ((success, itemsToEmit), rs', es)"
      by blast
    then have c: "success = True" "itemsToEmit = snd (assignIds h rs [] [] items)"
      by (cases "putAll rs (fst (assignIds h rs [] [] items))";
          simp add: case_prod_unfold)+
    have "r = Inr True"
      "m' = fold (\<lambda>(actionType, data). emitEvent actionType data) itemsToEmit m0"
      using assms x Inr p c by (simp_all add: addManyToStore_def)
    then show ?thesis
      using e0 c(2) assignIds_emissions[of h rs "[]" "[]" items]
      by (simp add: fold_emitEvent_pairs)
  qed
qed

lemma updateMany_emitted:
  assumes "updateManyInStore h m storeName items = (r, m')"
  shows "(r = Inr True \<and> emitted m' = emitted m @ map (\<lambda>item. (Update, ItemData item)) items)
       \<or> (r = Inr False \<and> emitted m' = emitted m)"
proof -
  let ?cb = "\<lambda>rs. case putAll rs items of Inl e \<Rightarrow> Inl e
     | Inr rs' \<Rightarrow> Inr (True, rs', [] :: emission list)"
  have s: "emitted (snd (executeTransaction h m storeName ReadWrite ?cb)) = emitted m"
    by (rule executeTransaction_silent) (auto split: sum.splits)
  obtain r0 m0 where x: "executeTransaction h m storeName ReadWrite ?cb = (r0, m0)"
    by (cases "executeTransaction h m storeName ReadWrite ?cb")
  with s have e0: "emitted m0 = emitted m" by simp
  show ?thesis
  proof (cases r0)
    case (Inl e)
    then show ?thesis using assms x e0 by (simp add: updateManyInStore_def)
  next
    case (Inr success)
    from executeTransaction_fulfilled[OF x[unfolded Inr]]
    obtain rs rs' es where "?cb rs = Inr (success, rs', es)"
      by blast
    then have c: "success = True"
      by (cases "putAll rs items") simp_all
    then show ?thesis
      using assms x Inr e0 by (auto simp: updateManyInStore_def Let_def fold_emitEvent)
  qed
qed

lemma deleteMany_emitted:
  assumes "deleteManyFromStore h m storeName ids = (r, m')"
  shows "(r = Inr True
           \<and> emitted m' = emitted m @ map (\<lambda>i. (Delete, IdData (normalizeId h i))) ids)
       \<or> (r = Inr False \<and> emitted m' = emitted m)"
proof -
  let ?cb = "\<lambda>rs. let normalizedIds = map (normalizeId h) ids in
                    case deleteAll rs normalizedIds of
                      Inl e \<Rightarrow> Inl e
                    | Inr rs' \<Rightarrow> Inr (True, rs', [] :: emission list)"
  have s: "emitted (snd (executeTransaction h m storeName ReadWrite ?cb)) = emitted m"
    by (rule executeTransaction_silent) (auto simp: Let_def split: sum.splits)
  obtain r0 m0 where x: "executeTransaction h m storeName ReadWrite ?cb = (r0, m0)"
    by (cases "executeTransaction h m storeName ReadWrite ?cb")
  with s have e0: "emitted m0 = emitted m" by simp
  show ?thesis
  proof (cases r0)
    case (Inl e)
    then show ?thesis using assms x e0 by (simp add: deleteManyFromStore_def Let_def)
  next
    case (Inr success)
    from executeTransaction_fulfilled[OF x[unfolded Inr]]
    obtain rs rs' es where "?cb rs = Inr (success, rs', es)"
      by blast
    then have c: "success = True"
      by (cases "deleteAll rs (map (normalizeId h) ids)") (simp_all add: Let_def)
    then show ?thesis
      using assms x Inr e0
      by (auto simp: deleteManyFromStore_def Let_def fold_emitEvent comp_def)
  qed
qed

text \<open>
  Claim C6, as amended.  Each mutating operation that completes emits one notification per
  item it was asked to write or delete, whether or not a record was there before:
  \<open>saveDataToStore\<close> one \<open>add\<close> or \<open>update\<close> carrying the saved record; \<open>updateDataByIdInStore\<close>
  one \<open>update\<close> carrying the merged record, and none when it answers \<open>null\<close>;
  \<open>deleteDataFromStore\<close> one \<open>delete\<close> carrying the key; \<open>clearStore\<close> one \<open>clear\<close>;
  \<open>addManyToStore\<close> as many \<open>add\<close> or \<open>update\<close> notifications as the batch has items;
  \<open>updateManyInStore\<close> one \<open>update\<close> per item and \<open>deleteManyFromStore\<close> one \<open>delete\<close> per
  identifier, in the order given.  \<open>saveDataToStore\<close> and \<open>deleteDataFromStore\<close> emit nothing
  when they reject, and the batch operations nothing when they answer \<open>false\<close>.  This holds
  from any state of the manager and for any engine.
\<close>

theorem notifications_per_operation:
  "(\<forall>r m'. saveDataToStore h m storeName data = (r, m') \<longrightarrow>
      (case r of
         Inr saved \<Rightarrow> \<exists>actionType. (actionType = Add \<or> actionType = Update)
                        \<and> emitted m' = emitted m @ [(actionType, ItemData saved)]
       | Inl e \<Rightarrow> emitted m' = emitted m))
   \<and> (\<forall>r m'. updateDataByIdInStore h m storeName i updatedData = (Inr r, m') \<longrightarrow>
      (case r of
         None \<Rightarrow> emitted m' = emitted m
       | Some merged \<Rightarrow> emitted m' = emitted m @ [(Update, ItemData merged)]))
   \<and> (\<forall>r m'. deleteDataFromStore h m storeName i = (r, m') \<longrightarrow>
      (case r of
         Inr k \<Rightarrow> emitted m' = emitted m @ [(Delete, IdData k)]
       | Inl e \<Rightarrow> emitted m' = emitted m))
   \<and> (\<forall>u m'. clearStore h m storeName = (Inr u, m') \<longrightarrow>
         emitted m' = emitted m @ [(Clear, NoData)])
   \<and> (\<forall>r m'. addManyToStore h m storeName items = (r, m') \<longrightarrow>
      (r = Inr True \<and> (\<exists>es. emitted m' = emitted m @ es \<and> length es = length items
             \<and> set (map fst es) \<subseteq> {Add, Update}))
       \<or> (r = Inr False \<and> emitted m' = emitted m))
   \<and> (\<forall>r m'. updateManyInStore h m storeName items = (r, m') \<longrightarrow>
      (r = Inr True \<and> emitted m' = emitted m @ map (\<lambda>item. (Update, ItemData item)) items)
       \<or> (r = Inr False \<and> emitted m' = emitted m))
   \<and> (\<forall>r m'. deleteManyFromStore h m storeName ids = (r, m') \<longrightarrow>
      (r = Inr True
           \<and> emitted m' = emitted m @ map (\<lambda>i. (Delete, IdData (normalizeId h i))) ids)
       \<or> (r = Inr False \<and> emitted m' = emitted m))"
  using saveDataToStore_emitted[of h m storeName data]
    updateDataById_emitted[of h m storeName i updatedData]
    deleteData_emitted[of h m storeName i]
    clearStore_emitted[of h m storeName]
    addMany_emitted[of h m storeName items]
    updateMany_emitted[of h m storeName items]
    deleteMany_emitted[of h m storeName ids]
  by (intro conjI allI impI) blast+


lemmas eval_defs = executeTransaction_def openDatabase_def openManager_def recordsOf_def
  store_get_def store_put_def store_delete_def keyOf_def getProp_def emitEvent_def
  decimalHost_def MAX_SAFE_INTEGER_def Let_def DataError_def

theorem notifications_per_operation_witness:
  "fst (deleteDataFromStore decimalHost (openManager [[(''id'', Num (Finite 1))]]) ''items''
          (Num (Finite 1))) = Inr (Num (Finite 1))
   \<and> emitted (snd (deleteDataFromStore decimalHost (openManager [[(''id'', Num (Finite 1))]])
          ''items'' (Num (Finite 1)))) = [(Delete, IdData (Num (Finite 1)))]
   \<and> fst (updateManyInStore decimalHost (openManager [[(''id'', Num (Finite 1))]]) ''items''
          [[(''name'', Str ''no key'')]]) = Inr False
   \<and> emitted (snd (updateManyInStore decimalHost (openManager [[(''id'', Num (Finite 1))]])
          ''items'' [[(''name'', Str ''no key'')]])) = []"
proof -
  let ?m = "openManager [[(''id'', Num (Finite 1))]]"
  let ?d = "deleteDataFromStore decimalHost ?m ''items'' (Num (Finite 1))"
  let ?u = "updateManyInStore decimalHost ?m ''items'' [[(''name'', Str ''no key'')]]"
  have e: "emitted ?m = []" by (simp add: openManager_def)
  have d: "fst ?d = Inr (Num (Finite 1))"
    by (simp add: deleteDataFromStore_def eval_defs)
  have u: "fst ?u = Inr False"
    by (simp add: updateManyInStore_def eval_defs)
  note t = notifications_per_operation[where h=decimalHost and m="?m" and storeName="''items''"
      and i="Num (Finite 1)" and items="[[(''name'', Str ''no key'')]]"]
  have pd: "?d = (fst ?d, snd ?d)" and pu: "?u = (fst ?u, snd ?u)" by simp_all
  from t pd have "case fst ?d of
         Inr k \<Rightarrow> emitted (snd ?d) = emitted ?m @ [(Delete, IdData k)]
       | Inl e \<Rightarrow> emitted (snd ?d) = emitted ?m"
    by blast
  then have 1: "emitted (snd ?d) = [(Delete, IdData (Num (Finite 1)))]"
    unfolding d e by simp
  from t pu have "(fst ?u = Inr True \<and> emitted (snd ?u)
          = emitted ?m @ map (\<lambda>item. (Update, ItemData item)) [[(''name'', Str ''no key'')]])
       \<or> (fst ?u = Inr False \<and> emitted (snd ?u) = emitted ?m)"
    by blast
  then have 2: "emitted (snd ?u) = []"
    unfolding u e by simp
  from d 1 u 2 show ?thesis by blast
qed

text \<open>
  Claim C6 as stated counts one notification per record actually added, updated or
  deleted.  Deleting the identifiers 1, 1 and 7 from a store that holds the one record 1
  succeeds with three \<open>delete\<close> notifications, and one record was deleted.
\<close>

theorem delete_notifies_without_deleting_counterexample:
  "fst (deleteManyFromStore decimalHost
          (openManager [[(''id'', Num (Finite 1)), (''name'', Str ''a'')]]) ''items''
          [Num (Finite 1), Num (Finite 1), Num (Finite 7)]) = Inr True
   \<and> emitted (snd (deleteManyFromStore decimalHost
          (openManager [[(''id'', Num (Finite 1)), (''name'', Str ''a'')]]) ''items''
          [Num (Finite 1), Num (Finite 1), Num (Finite 7)]))
       = [(Delete, IdData (Num (Finite 1))), (Delete, IdData (Num (Finite 1))),
          (Delete, IdData (Num (Finite 7)))]
   \<and> recordsOf (openManager [[(''id'', Num (Finite 1)), (''name'', Str ''a'')]]) ''items''
       = [[(''id'', Num (Finite 1)), (''name'', Str ''a'')]]
   \<and> recordsOf (snd (deleteManyFromStore decimalHost
          (openManager [[(''id'', Num (Finite 1)), (''name'', Str ''a'')]]) ''items''
          [Num (Finite 1), Num (Finite 1), Num (Finite 7)])) ''items'' = []"
  by (simp add: deleteManyFromStore_def eval_defs)

text \<open>
  \<open>clearStore\<close> and \<open>updateDataByIdInStore\<close> emit from the request's \<open>onsuccess\<close>, before the
  transaction has completed: when the engine then aborts the transaction, the operation
  fails, the records are as before, and the notification has gone out all the same.
\<close>

lemma clear_notifies_despite_failed_commit:
  "fst (clearStore (decimalHost\<lparr>commitVerdict := \<lambda>n. Aborts Null\<rparr>)
          (openManager [[(''id'', Num (Finite 1))]]) ''items'')
     = Inl (Error ''Transaction aborted'')
   \<and> emitted (snd (clearStore (decimalHost\<lparr>commitVerdict := \<lambda>n. Aborts Null\<rparr>)
          (openManager [[(''id'', Num (Finite 1))]]) ''items'')) = [(Clear, NoData)]
   \<and> recordsOf (snd (clearStore (decimalHost\<lparr>commitVerdict := \<lambda>n. Aborts Null\<rparr>)
          (openManager [[(''id'', Num (Finite 1))]]) ''items'')) ''items''
     = [[(''id'', Num (Finite 1))]]"
  by (simp add: clearStore_def eval_defs)


subsection \<open>Identifiers of a batch\<close>

text \<open>
  \<open>Math.max(...numericIds) + 1\<close> is only reached when the numeric identifiers are exactly
  \<open>1..length\<close>, so the sum is a small integer, exact as a double.
\<close>

lemma max_branch_is_length:
  fixes ids :: "rat list"
  assumes "find (\<lambda>i. rat_of_nat i \<notin> set ids) [1 ..< Suc (length ids)] = None"
    and "ids \<noteq> []"
  shows "Max (set ids) = rat_of_nat (length ids)"
proof -
  let ?n = "length ids"
  have all: "\<forall>i \<in> {1..?n}. rat_of_nat i \<in> set ids"
    using assms(1) by (auto simp: find_None_iff)
  then have sub: "rat_of_nat ` {1..?n} \<subseteq> set ids" by auto
  have "card (rat_of_nat ` {1..?n}) = ?n"
    by (simp add: card_image inj_on_def)
  moreover have "card (set ids) \<le> ?n" by (rule card_length)
  ultimately have "set ids = rat_of_nat ` {1..?n}"
    using sub by (metis card_seteq finite_set)
  moreover have "Max (rat_of_nat ` {1..?n}) = rat_of_nat ?n"
  proof (rule Max_eqI)
    show "finite (rat_of_nat ` {1..?n})" by simp
    show "\<And>y. y \<in> rat_of_nat ` {1..?n} \<Longrightarrow> y \<le> rat_of_nat ?n" by auto
    show "rat_of_nat ?n \<in> rat_of_nat ` {1..?n}" using assms(2) by (auto simp: Suc_le_eq)
  qed
  ultimately show ?thesis by simp
qed

lemma numericIdsOf_set:
  "set (numericIdsOf h xs) = {x. \<exists>r \<in> set xs. Number_of h (getProp r ''id'') = Finite x}"
  by (auto simp: numericIdsOf_def split: number.splits)

lemma generateNextId_fresh_number:
  "\<exists>x. generateNextId h xs = Num (Finite x)
     \<and> (xs \<noteq> [] \<and> hasProp (hd xs) ''id'' \<longrightarrow> x \<notin> set (numericIdsOf h xs))"
proof (cases "xs \<noteq> [] \<and> hasProp (hd xs) ''id''")
  case False
  then show ?thesis by (auto simp: generateNextId_def)
next
  case True
  let ?ids = "numericIdsOf h xs"
  show ?thesis
  proof (cases "?ids = []")
    case e: True
    then show ?thesis using True by (simp add: generateNextId_def)
  next
    case ne: False
    show ?thesis
    proof (cases "find (\<lambda>i. rat_of_nat i \<notin> set ?ids) [1 ..< Suc (length ?ids)]")
      case None
      have "Max (set ?ids) + 1 \<notin> set ?ids"
      proof
        assume "Max (set ?ids) + 1 \<in> set ?ids"
        then have "Max (set ?ids) + 1 \<le> Max (set ?ids)" by (intro Max_ge) simp_all
        then show False by simp
      qed
      then show ?thesis using True ne None by (simp add: generateNextId_def Let_def)
    next
      case (Some i)
      then have "rat_of_nat i \<notin> set ?ids" by (auto simp: find_Some_iff)
      then show ?thesis using True ne Some by (simp add: generateNextId_def Let_def)
    qed
  qed
qed

lemma generateNextId_not_a_key:
  assumes "\<forall>r \<in> set xs. hasProp r ''id''"
  shows "generateNextId h xs \<notin> set (map keyOf xs)"
proof
  assume a: "generateNextId h xs \<in> set (map keyOf xs)"
  then have ne: "xs \<noteq> []" by auto
  then have hd: "hasProp (hd xs) ''id''" using assms by simp
  from generateNextId_fresh_number[of h xs] ne hd
  obtain x where x: "generateNextId h xs = Num (Finite x)" "x \<notin> set (numericIdsOf h xs)"
    by blast
  from a x(1) obtain r where r: "r \<in> set xs" "keyOf r = Num (Finite x)" by auto
  then have "Number_of h (getProp r ''id'') = Finite x" by (simp add: keyOf_def)
  with r(1) have "x \<in> set (numericIdsOf h xs)"
    unfolding numericIdsOf_set by blast
  with x(2) show False by simp
qed

lemma hasProp_withId: "hasProp (withId r k) ''id''"
  by (simp add: hasProp_def withId_def update_conv')

lemma assignIds_fresh:
  assumes "\<forall>r \<in> set allData. hasProp r ''id''"
    and "\<forall>item \<in> set items. \<not> isValidId (getProp item ''id'')"
    and "\<forall>r \<in> set acc. hasProp r ''id''"
    and "distinct (map keyOf acc)"
    and "set (map keyOf acc) \<inter> set (map keyOf allData) = {}"
  shows "\<exists>new. fst (assignIds h allData acc accE items) = acc @ new
     \<and> length new = length items
     \<and> distinct (map keyOf (acc @ new))
     \<and> set (map keyOf (acc @ new)) \<inter> set (map keyOf allData) = {}
     \<and> (\<forall>k < length items.
           keyOf (new ! k) = generateNextId h (allData @ acc @ take k new))"
  using assms
proof (induction items arbitrary: acc accE)
  case Nil
  then show ?case by simp
next
  case (Cons item rest)
  let ?g = "generateNextId h (allData @ acc)"
  let ?new = "withId item ?g"
  let ?acc = "acc @ [?new]"
  let ?accE = "accE @ [(Add, ItemData ?new)]"
  have inv: "\<not> isValidId (getProp item ''id'')" using Cons.prems(2) by simp
  have step: "assignIds h allData acc accE (item # rest) = assignIds h allData ?acc ?accE rest"
    using inv by (simp add: Let_def)
  have "\<forall>r \<in> set (allData @ acc). hasProp r ''id''"
    using Cons.prems(1,3) by auto
  then have fresh: "?g \<notin> set (map keyOf (allData @ acc))"
    by (rule generateNextId_not_a_key)
  have k: "keyOf ?new = ?g" by (rule keyOf_withId)
  have p3: "\<forall>r \<in> set ?acc. hasProp r ''id''"
    using Cons.prems(3) hasProp_withId by auto
  have p4: "distinct (map keyOf ?acc)"
    using Cons.prems(4) fresh k by auto
  have p5: "set (map keyOf ?acc) \<inter> set (map keyOf allData) = {}"
    using Cons.prems(5) fresh k by auto
  have p2: "\<forall>item \<in> set rest. \<not> isValidId (getProp item ''id'')"
    using Cons.prems(2) by simp
  from Cons.IH[OF Cons.prems(1) p2 p3 p4 p5, of ?accE]
  obtain new where n: "fst (assignIds h allData ?acc ?accE rest) = ?acc @ new"
    "length new = length rest"
    "distinct (map keyOf (?acc @ new))"
    "set (map keyOf (?acc @ new)) \<inter> set (map keyOf allData) = {}"
    "\<forall>k < length rest. keyOf (new ! k) = generateNextId h (allData @ ?acc @ take k new)"
    by blast
  have idx: "\<forall>k < length (item # rest).
      keyOf ((?new # new) ! k) = generateNextId h (allData @ acc @ take k (?new # new))"
  proof (intro allI impI)
    fix j assume "j < length (item # rest)"
    then show "keyOf ((?new # new) ! j)
        = generateNextId h (allData @ acc @ take j (?new # new))"
      using n(5) k by (cases j) auto
  qed
  show ?case
    unfolding step
    using n(1-4) idx by (intro exI[of _ "?new # new"]) simp
qed

lemma putAll_fresh:
  assumes "distinct (map keyOf xs)"
    and "set (map keyOf xs) \<inter> set (map keyOf rs) = {}"
    and "\<forall>x \<in> set xs. validKey (keyOf x)"
  shows "putAll rs xs = Inr (rs @ xs)"
  using assms
proof (induction xs arbitrary: rs)
  case Nil
  then show ?case by simp
next
  case (Cons x xs)
  have "keyOf x \<notin> keyOf ` set rs"
    using Cons.prems(2) by auto
  then have "\<forall>y \<in> set rs. keyOf y \<noteq> keyOf x"
    by (metis imageI)
  then have "find (\<lambda>y. keyOf y = keyOf x) rs = None"
    by (simp add: find_None_iff)
  then have p: "store_put rs x = Inr (rs @ [x])"
    using Cons.prems(3) by (simp add: store_put_def)
  have "putAll (rs @ [x]) xs = Inr ((rs @ [x]) @ xs)"
    using Cons.prems by (intro Cons.IH) auto
  then show ?case using p by simp
qed

text \<open>
  Claim C5.  \<open>allDataInStore\<close> is what the store holds when the transaction reads it (every
  record of a store with key path \<open>id\<close> has an \<open>id\<close>).  For a batch whose records have no
  valid identifier, the loop of \<open>addManyToStore\<close> assigns one identifier per record; the
  identifiers are pairwise distinct and none is a key of the store; the identifier of
  record \<open>k\<close> is \<open>generateNextId\<close> of the store contents followed by the \<open>k\<close> records
  already given theirs.  On an open connection that has the store, with an engine that
  commits, \<open>addManyToStore\<close> answers \<open>true\<close> and the store then holds its old records
  followed by the new ones.
\<close>

theorem addMany_assigns_distinct_ids:
  assumes "\<forall>r \<in> set allDataInStore. hasProp r ''id''"
    and "\<forall>item \<in> set items. \<not> isValidId (getProp item ''id'')"
  shows "length (fst (assignIds h allDataInStore [] [] items)) = length items
     \<and> distinct (map keyOf (fst (assignIds h allDataInStore [] [] items)))
     \<and> set (map keyOf (fst (assignIds h allDataInStore [] [] items)))
          \<inter> set (map keyOf allDataInStore) = {}
     \<and> (\<forall>k < length items.
           keyOf (fst (assignIds h allDataInStore [] [] items) ! k)
             = generateNextId h
                 (allDataInStore @ take k (fst (assignIds h allDataInStore [] [] items))))
     \<and> (db m \<and> storeName \<in> set (objectStoreNames m)
          \<and> recordsOf m storeName = allDataInStore
          \<and> commitVerdict h (length (transactions m)) = Commits
        \<longrightarrow> (\<exists>m'. addManyToStore h m storeName items = (Inr True, m')
              \<and> recordsOf m' storeName
                  = allDataInStore @ fst (assignIds h allDataInStore [] [] items)))"
proof -
  let ?new = "fst (assignIds h allDataInStore [] [] items)"
  have core: "length ?new = length items" "distinct (map keyOf ?new)"
    "set (map keyOf ?new) \<inter> set (map keyOf allDataInStore) = {}"
    "\<forall>k < length items. keyOf (?new ! k) = generateNextId h (allDataInStore @ take k ?new)"
    using assignIds_fresh[OF assms, of "[]" h "[]"] by auto
  have valid: "\<forall>x \<in> set ?new. validKey (keyOf x)"
  proof
    fix x assume "x \<in> set ?new"
    then obtain k where k: "k < length ?new" "x = ?new ! k" by (auto simp: in_set_conv_nth)
    then have "keyOf x = generateNextId h (allDataInStore @ take k ?new)"
      using core(1,4) by simp
    then show "validKey (keyOf x)"
      using generateNextId_fresh_number[of h "allDataInStore @ take k ?new"] by auto
  qed
  have put: "putAll allDataInStore ?new = Inr (allDataInStore @ ?new)"
    using core(2,3) valid by (rule putAll_fresh)
  have op: "db m \<and> storeName \<in> set (objectStoreNames m)
          \<and> recordsOf m storeName = allDataInStore
          \<and> commitVerdict h (length (transactions m)) = Commits
        \<longrightarrow> (\<exists>m'. addManyToStore h m storeName items = (Inr True, m')
              \<and> recordsOf m' storeName = allDataInStore @ ?new)"
  proof
    assume a: "db m \<and> storeName \<in> set (objectStoreNames m)
          \<and> recordsOf m storeName = allDataInStore
          \<and> commitVerdict h (length (transactions m)) = Commits"
    then have o: "db m" "storeName \<in> set (objectStoreNames m)" by simp_all
    have r: "\<And>es m0. recordsOf (fold (\<lambda>p. emitEvent (fst p) (snd p)) es m0) storeName
        = recordsOf m0 storeName"
    proof -
      fix es :: "emission list" and m0
      show "recordsOf (fold (\<lambda>p. emitEvent (fst p) (snd p)) es m0) storeName
          = recordsOf m0 storeName"
        by (induction es arbitrary: m0) (simp_all add: emitEvent_def recordsOf_def)
    qed
    show "\<exists>m'. addManyToStore h m storeName items = (Inr True, m')
              \<and> recordsOf m' storeName = allDataInStore @ ?new"
      using a put
      by (simp add: addManyToStore_def executeTransaction_open[OF o] case_prod_unfold Let_def r)
        (simp add: recordsOf_def update_conv')
  qed
  from core op show ?thesis by blast
qed


theorem addMany_assigns_distinct_ids_witness:
  "hasProp [(''id'', Num (Finite 2))] ''id''
   \<and> \<not> isValidId (getProp [(''name'', Str ''a'')] ''id'')
   \<and> map keyOf (fst (assignIds decimalHost [[(''id'', Num (Finite 2))]] [] []
         [[(''name'', Str ''a'')], [(''name'', Str ''b'')], [(''name'', Str ''c'')]]))
       = [Num (Finite 1), Num (Finite 3), Num (Finite 4)]
   \<and> distinct (map keyOf (fst (assignIds decimalHost [[(''id'', Num (Finite 2))]] [] []
         [[(''name'', Str ''a'')], [(''name'', Str ''b'')], [(''name'', Str ''c'')]])))
   \<and> set (map keyOf (fst (assignIds decimalHost [[(''id'', Num (Finite 2))]] [] []
         [[(''name'', Str ''a'')], [(''name'', Str ''b'')], [(''name'', Str ''c'')]])))
        \<inter> set (map keyOf [[(''id'', Num (Finite 2))]]) = {}"
proof -
  let ?store = "[[(''id'', Num (Finite 2))]]"
  let ?items = "[[(''name'', Str ''a'')], [(''name'', Str ''b'')], [(''name'', Str ''c'')]]"
  have s: "\<forall>r \<in> set ?store. hasProp r ''id''" by (simp add: hasProp_def)
  have i: "\<forall>item \<in> set ?items. \<not> isValidId (getProp item ''id'')"
    by (simp add: getProp_def)
  have g1: "generateNextId decimalHost ?store = Num (Finite 1)"
    by (simp add: generateNextId_def numericIdsOf_def hasProp_def getProp_def Let_def)
  have g2: "generateNextId decimalHost (?store @ [[(''name'', Str ''a''), (''id'', Num (Finite 1))]])
      = Num (Finite 3)"
    by (simp add: generateNextId_def numericIdsOf_def hasProp_def getProp_def Let_def)
  have g3: "generateNextId decimalHost (?store @ [[(''name'', Str ''a''), (''id'', Num (Finite 1))],
        [(''name'', Str ''b''), (''id'', Num (Finite 3))]])
      = Num (Finite 4)"
    by (simp add: generateNextId_def numericIdsOf_def hasProp_def getProp_def Let_def)
  have e: "map keyOf (fst (assignIds decimalHost ?store [] [] ?items))
       = [Num (Finite 1), Num (Finite 3), Num (Finite 4)]"
    using g1 g2 g3 by (simp add: getProp_def withId_def Let_def keyOf_def)
  from addMany_assigns_distinct_ids[OF s i, of decimalHost]
  have d: "distinct (map keyOf (fst (assignIds decimalHost ?store [] [] ?items)))"
    and j: "set (map keyOf (fst (assignIds decimalHost ?store [] [] ?items)))
        \<inter> set (map keyOf ?store) = {}"
    by blast+
  from s i e d j show ?thesis by simp
qed

subsection \<open>Search criteria\<close>



lemma toLowerCase_keeps_dot: "CHR ''.'' \<in> set val \<Longrightarrow> CHR ''.'' \<in> set (toLowerCase val)"
proof -
  assume "CHR ''.'' \<in> set val"
  moreover have "(case map_of (zip ''ABCDEFGHIJKLMNOPQRSTUVWXYZ'' ''abcdefghijklmnopqrstuvwxyz'')
      CHR ''.'' of None \<Rightarrow> CHR ''.'' | Some l \<Rightarrow> l) = CHR ''.''"
    by simp
  ultimately show ?thesis
    unfolding toLowerCase_def by (metis (no_types, lifting) image_eqI set_map)
qed

text \<open>No status token contains a dot, so a value with a dot is never one of them.\<close>

lemma dotted_value_is_no_status_token:
  "CHR ''.'' \<in> set val \<Longrightarrow> toLowerCase val \<notin> set commonExactValues"
proof
  assume "CHR ''.'' \<in> set val" and "toLowerCase val \<in> set commonExactValues"
  then have "\<exists>t \<in> set commonExactValues. CHR ''.'' \<in> set t"
    using toLowerCase_keeps_dot by blast
  then show False by (simp add: commonExactValues_def)
qed









end
